theory Spec2Isabelle
  imports Complex_Main "HOL-Library.Char_ord" "HOL-Library.List_Lexorder"
begin

section \<open>The atomic batcher of quebap/model/reader.py\<close>

text \<open>
  The development embeds \<^verbatim>\<open>AtomicBatcher\<close> (its constructor and the generator
  \<^verbatim>\<open>create_batches\<close>) and \<^verbatim>\<open>create_dot_product_scorer\<close> of
  \<^verbatim>\<open>src/quebap/model/reader.py\<close>. Python exceptions are values of \<open>py_error\<close>;
  a computation that may raise returns \<open>py_error + 'a\<close> with \<open>Inl\<close> for the exception.
\<close>

datatype py_error = KeyError | IndexError | ValueError | ZeroDivisionError

subsection \<open>Python primitives used by the source\<close>

text \<open>\<^verbatim>\<open>xs[0]\<close> on a list: raises IndexError on the empty list.\<close>

fun first :: "'a list \<Rightarrow> py_error + 'a" where
  "first [] = Inl IndexError"
| "first (x # _) = Inr x"

text \<open>\<^verbatim>\<open>range(a, b)\<close>: the integers \<open>a, a + 1, ..., b - 1\<close>, none when \<open>b \<le> a\<close>.\<close>

definition py_range :: "int \<Rightarrow> int \<Rightarrow> int list" where
  "py_range a b = map (\<lambda>k. a + int k) [0..<nat (b - a)]"

text \<open>
  \<^verbatim>\<open>xs[i:j]\<close>: a negative bound counts from the end, every bound is clipped to the
  list, and an empty list results when the clipped bounds cross.
\<close>

definition py_slice :: "'a list \<Rightarrow> int \<Rightarrow> int \<Rightarrow> 'a list" where
  "py_slice xs i j =
     (let n = int (length xs);
          s = (if i < 0 then max 0 (i + n) else min i n);
          e = (if j < 0 then max 0 (j + n) else min j n)
      in take (nat (e - s)) (drop (nat s) xs))"

text \<open>
  A list comprehension \<^verbatim>\<open>[f(x) for x in xs]\<close> whose body may raise: the elements are
  computed from left to right and the first exception leaves the comprehension.
\<close>

fun comprehension :: "('a \<Rightarrow> py_error + 'b) \<Rightarrow> 'a list \<Rightarrow> py_error + 'b list" where
  "comprehension f [] = Inr []"
| "comprehension f (x # xs) =
     (case f x of
        Inl e \<Rightarrow> Inl e
      | Inr y \<Rightarrow> (case comprehension f xs of Inl e \<Rightarrow> Inl e | Inr ys \<Rightarrow> Inr (y # ys)))"

subsection \<open>The random source\<close>

text \<open>
  \<^verbatim>\<open>random.Random\<close> belongs to Python's standard library, not to the repository.
  The generator is a parameter \<open>prng\<close>: \<open>prng seed k\<close> is the \<open>k\<close>-th raw output of the
  generator started from \<open>seed\<close>. A random source is the output sequence of its seed
  together with the number of outputs consumed so far. \<^verbatim>\<open>randint(a, b)\<close> follows
  its documented contract: it raises ValueError on an empty range without consuming
  anything, and otherwise consumes one output and returns an integer \<open>N\<close> with
  \<open>a \<le> N \<le> b\<close>.
\<close>

record Random =
  outputs :: "nat \<Rightarrow> nat"
  consumed :: nat

definition Random_init :: "(int \<Rightarrow> nat \<Rightarrow> nat) \<Rightarrow> int \<Rightarrow> Random" where
  "Random_init prng seed = \<lparr>outputs = prng seed, consumed = 0\<rparr>"

definition randint :: "int \<Rightarrow> int \<Rightarrow> Random \<Rightarrow> (py_error + int) \<times> Random" where
  "randint a b r =
     (if b < a then (Inl ValueError, r)
      else (Inr (a + int (outputs r (consumed r)) mod (b - a + 1)),
            r\<lparr>consumed := Suc (consumed r)\<rparr>))"

text \<open>
  \<^verbatim>\<open>[self.random.randint(a, b) for _ in range(0, n)]\<close>: one draw per element of the
  range, in order, each from the state the previous draw left.
\<close>

fun draws :: "'a list \<Rightarrow> int \<Rightarrow> int \<Rightarrow> Random \<Rightarrow> (py_error + int list) \<times> Random" where
  "draws [] a b r = (Inr [], r)"
| "draws (_ # ks) a b r =
     (case randint a b r of
        (Inl e, r') \<Rightarrow> (Inl e, r')
      | (Inr v, r') \<Rightarrow>
          (case draws ks a b r' of
             (Inl e, r'') \<Rightarrow> (Inl e, r'')
           | (Inr vs, r'') \<Rightarrow> (Inr (v # vs), r'')))"

subsection \<open>FrozenIdentifier\<close>

text \<open>
  Modelled from the spec: the class \<^verbatim>\<open>FrozenIdentifier\<close> of
  \<^verbatim>\<open>quebap.projects.modelF.structs\<close> is imported by the source and is not among the
  source files. The spec describes it as an immutable bijection between a finite set
  of symbols and the ids \<open>0..n-1\<close>, built once by deduplicating the input in a
  deterministic order (sorted lexical order is the order the spec names), whose lookup
  fails on a symbol absent at construction and whose size is the number of distinct
  symbols. It is the list of its symbols in id order.
\<close>

datatype FrozenIdentifier = FrozenIdentifier (symbols: "string list")

definition FrozenIdentifier_build :: "string set \<Rightarrow> FrozenIdentifier" where
  "FrozenIdentifier_build S = FrozenIdentifier (sorted_list_of_set S)"

fun index_from :: "int \<Rightarrow> string list \<Rightarrow> string \<Rightarrow> py_error + int" where
  "index_from i [] s = Inl KeyError"
| "index_from i (x # xs) s = (if x = s then Inr i else index_from (i + 1) xs s)"

definition getitem :: "FrozenIdentifier \<Rightarrow> string \<Rightarrow> py_error + int" where
  "getitem fi s = index_from 0 (symbols fi) s"

definition len :: "FrozenIdentifier \<Rightarrow> int" where
  "len fi = int (length (symbols fi))"

subsection \<open>The dataset\<close>

text \<open>
  The JSON shape the source reads: \<^verbatim>\<open>globals.candidates[*].text\<close>,
  \<^verbatim>\<open>instances[*].questions[*].question\<close> and
  \<^verbatim>\<open>instances[*].questions[*].answers[*].text\<close>. The lists may be empty, so that
  the index \<^verbatim>\<open>[0]\<close> may raise.
\<close>

record answer =
  answer_text :: string

record question =
  question :: string
  answers :: "answer list"

record qinstance =
  questions :: "question list"

record candidate =
  candidate_text :: string

record globals =
  candidates :: "candidate list"

record dataset =
  globals :: globals
  instances :: "qinstance list"

text \<open>\<^verbatim>\<open>inst['questions'][0]['question']\<close>\<close>

definition question_of :: "qinstance \<Rightarrow> py_error + string" where
  "question_of inst =
     (case first (questions inst) of Inl e \<Rightarrow> Inl e | Inr q \<Rightarrow> Inr (question q))"

text \<open>\<^verbatim>\<open>inst['questions'][0]['answers'][0]['text']\<close>\<close>

definition answer_of :: "qinstance \<Rightarrow> py_error + string" where
  "answer_of inst =
     (case first (questions inst) of
        Inl e \<Rightarrow> Inl e
      | Inr q \<Rightarrow> (case first (answers q) of Inl e \<Rightarrow> Inl e | Inr a \<Rightarrow> Inr (answer_text a)))"

subsection \<open>AtomicBatcher\<close>

text \<open>
  The three TensorFlow placeholders are graph nodes that serve as the keys of a feed
  dictionary; a placeholder is its element type and its shape (\<open>None\<close> for an unknown
  dimension).
\<close>

datatype dtype = Int32 | Float32

record placeholder =
  ph_dtype :: dtype
  ph_shape :: "nat option list"

record AtomicBatcher =
  reference_data :: dataset
  question_lexicon :: FrozenIdentifier
  candidate_lexicon :: FrozenIdentifier
  question_ids :: placeholder
  candidate_ids :: placeholder
  target_values :: placeholder
  random_source :: Random
  num_candidates :: int
  num_questions :: int

text \<open>
  \<^verbatim>\<open>AtomicBatcher.__init__\<close> (lines 41-59). The comprehension over the instances may
  raise IndexError; \<^verbatim>\<open>set(...)\<close> of a list is the set of its elements.
\<close>

definition AtomicBatcher_init ::
  "(int \<Rightarrow> nat \<Rightarrow> nat) \<Rightarrow> dataset \<Rightarrow> py_error + AtomicBatcher" where
  "AtomicBatcher_init prng ref_data =
     (let global_candidates = candidates (globals ref_data);
          all_candidates = set (map candidate_text global_candidates);
          insts = instances ref_data
      in case comprehension question_of insts of
           Inl e \<Rightarrow> Inl e
         | Inr qs \<Rightarrow>
             (let all_questions = set qs;
                  qlex = FrozenIdentifier_build all_questions;
                  clex = FrozenIdentifier_build all_candidates
              in Inr \<lparr>reference_data = ref_data,
                      question_lexicon = qlex,
                      candidate_lexicon = clex,
                      question_ids = \<lparr>ph_dtype = Int32, ph_shape = [None]\<rparr>,
                      candidate_ids = \<lparr>ph_dtype = Int32, ph_shape = [None, None]\<rparr>,
                      target_values = \<lparr>ph_dtype = Float32, ph_shape = [None, None]\<rparr>,
                      random_source = Random_init prng 0,
                      num_candidates = len clex,
                      num_questions = len qlex\<rparr>))"

subsection \<open>create\_batches\<close>

text \<open>
  A batch is the feed dictionary of lines 82-86; its three keys are the three
  placeholders of the batcher, so it is a record of the three values.
\<close>

record batch =
  feed_question_ids :: "int list"
  feed_candidate_ids :: "(int \<times> int) list"
  feed_target_values :: "(real \<times> real) list"

text \<open>
  Line 73, \<^verbatim>\<open>self.question_lexicon[inst['questions'][0]['question']]\<close>, and line 75,
  \<^verbatim>\<open>self.candidate_lexicon[inst['questions'][0]['answers'][0]['text']]\<close>.
\<close>

definition question_id :: "AtomicBatcher \<Rightarrow> qinstance \<Rightarrow> py_error + int" where
  "question_id self inst =
     (case question_of inst of Inl e \<Rightarrow> Inl e | Inr q \<Rightarrow> getitem (question_lexicon self) q)"

definition answer_id :: "AtomicBatcher \<Rightarrow> qinstance \<Rightarrow> py_error + int" where
  "answer_id self inst =
     (case answer_of inst of Inl e \<Rightarrow> Inl e | Inr a \<Rightarrow> getitem (candidate_lexicon self) a)"

text \<open>
  The body of the \<^verbatim>\<open>for\<close> loop (lines 72-86) for one value of \<open>b\<close>: the batch it
  yields or the exception it raises, and the batcher afterwards. The question ids of
  the whole window are computed first, then the answer ids, then the negatives.
\<close>

definition make_batch ::
  "AtomicBatcher \<Rightarrow> qinstance list \<Rightarrow> int \<Rightarrow> int \<Rightarrow> (py_error + batch) \<times> AtomicBatcher" where
  "make_batch self insts batch_size b =
     (let window = py_slice insts (b * batch_size) ((b + 1) * batch_size)
      in case comprehension (question_id self) window of
           Inl e \<Rightarrow> (Inl e, self)
         | Inr qids \<Rightarrow>
             (case comprehension (answer_id self) window of
                Inl e \<Rightarrow> (Inl e, self)
              | Inr answer_ids \<Rightarrow>
                  (case draws (py_range 0 batch_size) 0 (len (candidate_lexicon self) - 1)
                          (random_source self) of
                     (Inl e, r) \<Rightarrow> (Inl e, self\<lparr>random_source := r\<rparr>)
                   | (Inr neg, r) \<Rightarrow>
                       (Inr \<lparr>feed_question_ids = qids,
                             feed_candidate_ids = zip answer_ids neg,
                             feed_target_values = map (\<lambda>_. (1, 0)) (py_range 0 batch_size)\<rparr>,
                        self\<lparr>random_source := r\<rparr>))))"

text \<open>
  A generator object. Calling \<^verbatim>\<open>create_batches\<close> runs none of its body: the
  arguments are bound and the body starts at the first \<^verbatim>\<open>next\<close>. A started
  generator is suspended at the \<^verbatim>\<open>yield\<close> with its local variables (the
  instances, the batch size and the values of \<open>b\<close> still to come); after
  exhaustion or an exception it is finished.
\<close>

datatype generator =
  Created "dataset option" int bool
| Suspended "qinstance list" int "int list"
| Finished

datatype 'a outcome = Yield 'a | StopIteration | Raise py_error

definition create_batches :: "AtomicBatcher \<Rightarrow> dataset option \<Rightarrow> int \<Rightarrow> bool \<Rightarrow> generator" where
  "create_batches self data batch_size test = Created data batch_size test"

text \<open>The loop from its head: the next value of \<open>b\<close>, or the end of the range.\<close>

fun loop_step ::
  "AtomicBatcher \<Rightarrow> qinstance list \<Rightarrow> int \<Rightarrow> int list \<Rightarrow> batch outcome \<times> AtomicBatcher \<times> generator" where
  "loop_step self insts batch_size [] = (StopIteration, self, Finished)"
| "loop_step self insts batch_size (b # bs) =
     (case make_batch self insts batch_size b of
        (Inl e, self') \<Rightarrow> (Raise e, self', Finished)
      | (Inr x, self') \<Rightarrow> (Yield x, self', Suspended insts batch_size bs))"

text \<open>
  Line 70: the instances of the data passed, or of the reference data when none is
  passed.
\<close>

definition instances_of :: "AtomicBatcher \<Rightarrow> dataset option \<Rightarrow> qinstance list" where
  "instances_of self data =
     (case data of None \<Rightarrow> instances (reference_data self) | Some d \<Rightarrow> instances d)"

text \<open>
  \<^verbatim>\<open>next(gen)\<close>. The first call runs lines 70-71: it selects the instances and
  divides, which raises ZeroDivisionError when \<open>batch_size\<close> is zero. Python's
  \<^verbatim>\<open>//\<close> on integers is the flooring division \<open>div\<close>.
\<close>

fun gen_next :: "AtomicBatcher \<Rightarrow> generator \<Rightarrow> batch outcome \<times> AtomicBatcher \<times> generator" where
  "gen_next self (Created data batch_size test) =
     (let insts = instances_of self data
      in if batch_size = 0 then (Raise ZeroDivisionError, self, Finished)
         else loop_step self insts batch_size
                (py_range 0 (int (length insts) div batch_size)))"
| "gen_next self (Suspended insts batch_size bs) = loop_step self insts batch_size bs"
| "gen_next self Finished = (StopIteration, self, Finished)"

text \<open>
  The number of calls of \<^verbatim>\<open>next\<close> that can still yield: it decreases with every
  batch yielded, so that a generator is exhausted after finitely many calls.
\<close>

fun pending :: "AtomicBatcher \<Rightarrow> generator \<Rightarrow> nat" where
  "pending self (Created data batch_size test) =
     Suc (length (py_range 0 (int (length (instances_of self data)) div batch_size)))"
| "pending self (Suspended insts batch_size bs) = length bs"
| "pending self Finished = 0"

text \<open>
  \<^verbatim>\<open>list(gen)\<close>: \<^verbatim>\<open>next\<close> is called until the generator stops or raises. The
  result is the list of the batches yielded, the exception that ended the iteration
  (\<open>None\<close> when the generator was exhausted), and the batcher afterwards.
\<close>

function py_list ::
  "AtomicBatcher \<Rightarrow> generator \<Rightarrow> (batch list \<times> py_error option) \<times> AtomicBatcher" where
  "py_list self g =
     (case gen_next self g of
        (Yield x, self', g') \<Rightarrow>
          (case py_list self' g' of ((xs, err), self'') \<Rightarrow> ((x # xs, err), self''))
      | (StopIteration, self', g') \<Rightarrow> (([], None), self')
      | (Raise e, self', g') \<Rightarrow> (([], Some e), self'))"
  by pat_completeness auto
termination
  apply (relation "measure (\<lambda>(self, g). pending self g)")
   apply simp
  subgoal for self g
    by (cases g)
       (auto simp: Let_def less_Suc_eq split: if_splits prod.splits sum.splits
             elim!: loop_step.elims [OF sym])
  done

declare py_list.simps [simp del]

text \<open>
  \<^verbatim>\<open>list(itertools.islice(gen, n))\<close>, as in \<^verbatim>\<open>main\<close>: at most \<open>n\<close> calls of
  \<^verbatim>\<open>next\<close>; the generator is returned too, since it can be resumed.
\<close>

fun islice ::
  "nat \<Rightarrow> AtomicBatcher \<Rightarrow> generator \<Rightarrow>
   (batch list \<times> py_error option) \<times> AtomicBatcher \<times> generator" where
  "islice 0 self g = (([], None), self, g)"
| "islice (Suc n) self g =
     (case gen_next self g of
        (Yield x, self', g') \<Rightarrow>
          (case islice n self' g' of ((xs, err), rest) \<Rightarrow> ((x # xs, err), rest))
      | (StopIteration, self', g') \<Rightarrow> (([], None), self', g')
      | (Raise e, self', g') \<Rightarrow> (([], Some e), self', g'))"

text \<open>The three components of a complete iteration.\<close>

definition yielded :: "AtomicBatcher \<Rightarrow> generator \<Rightarrow> batch list" where
  "yielded self g = fst (fst (py_list self g))"

definition raised :: "AtomicBatcher \<Rightarrow> generator \<Rightarrow> py_error option" where
  "raised self g = snd (fst (py_list self g))"

definition batcher_after :: "AtomicBatcher \<Rightarrow> generator \<Rightarrow> AtomicBatcher" where
  "batcher_after self g = snd (py_list self g)"

text \<open>A computation that returns a value instead of raising.\<close>

definition succeeds :: "py_error + 'a \<Rightarrow> bool" where
  "succeeds r = (case r of Inl _ \<Rightarrow> False | Inr _ \<Rightarrow> True)"

text \<open>The batcher after \<open>m\<close> further outputs of its random source were consumed.\<close>

definition advance :: "AtomicBatcher \<Rightarrow> nat \<Rightarrow> AtomicBatcher" where
  "advance self m = self\<lparr>random_source :=
           (random_source self)\<lparr>consumed := consumed (random_source self) + m\<rparr>\<rparr>"

text \<open>
  The instance list a generator reads: the one selected by line 70 when the body has
  not started, the local variable \<^verbatim>\<open>instances\<close> of a suspended body, none once
  the generator is finished.
\<close>

fun held_instances :: "AtomicBatcher \<Rightarrow> generator \<Rightarrow> qinstance list option" where
  "held_instances self (Created data batch_size test) = Some (instances_of self data)"
| "held_instances self (Suspended insts batch_size bs) = Some insts"
| "held_instances self Finished = None"

text \<open>Two batchers that differ at most in the random source.\<close>

definition frame :: "AtomicBatcher \<Rightarrow> AtomicBatcher \<Rightarrow> bool" where
  "frame self self' \<longleftrightarrow> self' = self\<lparr>random_source := random_source self'\<rparr>"

subsection \<open>The dot-product scorer\<close>

text \<open>
  TensorFlow is a library, not part of the repository. A tensor is the nested list of
  its entries, and a float is the real number it stands for. The three operations
  that \<^verbatim>\<open>create_dot_product_scorer\<close> composes follow their documentation.
\<close>

text \<open>\<^verbatim>\<open>tf.expand_dims(t, 1)\<close> on a tensor of rank 2: shape \<open>[b, d]\<close> becomes \<open>[b, 1, d]\<close>.\<close>

definition expand_dims_1 :: "'a list list \<Rightarrow> 'a list list list" where
  "expand_dims_1 t = map (\<lambda>row. [row]) t"

text \<open>
  One axis of an elementwise operation with broadcasting: sizes that agree are paired
  index by index, a size of one is stretched to the other size, and any other pair of
  sizes is an error.
\<close>

definition broadcast ::
  "('a \<Rightarrow> 'b \<Rightarrow> py_error + 'c) \<Rightarrow> 'a list \<Rightarrow> 'b list \<Rightarrow> py_error + 'c list" where
  "broadcast f xs ys =
     (if length xs = length ys then comprehension (\<lambda>(x, y). f x y) (zip xs ys)
      else if length xs = 1 then comprehension (\<lambda>y. f (hd xs) y) ys
      else if length ys = 1 then comprehension (\<lambda>x. f x (hd ys)) xs
      else Inl ValueError)"

text \<open>The operator \<^verbatim>\<open>*\<close> on two tensors of rank 3.\<close>

definition tf_multiply ::
  "real list list list \<Rightarrow> real list list list \<Rightarrow> py_error + real list list list" where
  "tf_multiply = broadcast (broadcast (broadcast (\<lambda>a b. Inr (a * b))))"

text \<open>\<^verbatim>\<open>tf.reduce_sum(t, 2)\<close> on a tensor of rank 3: the last axis is summed.\<close>

definition reduce_sum_2 :: "real list list list \<Rightarrow> real list list" where
  "reduce_sum_2 t = map (map sum_list) t"

text \<open>
  Line 108:
  \<^verbatim>\<open>tf.reduce_sum(tf.expand_dims(question_encodings, 1) * candidate_encodings, 2)\<close>.
\<close>

definition create_dot_product_scorer ::
  "real list list \<Rightarrow> real list list list \<Rightarrow> py_error + real list list" where
  "create_dot_product_scorer question_encodings candidate_encodings =
     (case tf_multiply (expand_dims_1 question_encodings) candidate_encodings of
        Inl e \<Rightarrow> Inl e
      | Inr products \<Rightarrow> Inr (reduce_sum_2 products))"

subsection \<open>Example data\<close>

text \<open>
  The dataset of the end-to-end scenario of the spec (two global candidates, three
  instances whose first answer is Paris) for three question texts, the batcher built
  from it for the questions q1, q2 and q3 with a generator whose \<open>k\<close>-th output is
  \<open>k\<close>, and a dataset whose question is in no lexicon. Then a dataset without
  global candidates and the batcher built from it, whose candidate lexicon is empty.
\<close>

definition paris_data :: "string \<Rightarrow> string \<Rightarrow> string \<Rightarrow> dataset" where
  "paris_data q1 q2 q3 =
     \<lparr>globals = \<lparr>candidates = [\<lparr>candidate_text = ''Paris''\<rparr>, \<lparr>candidate_text = ''Berlin''\<rparr>]\<rparr>,
      instances = map (\<lambda>q. \<lparr>questions = [\<lparr>question = q, answers = [\<lparr>answer_text = ''Paris''\<rparr>]\<rparr>]\<rparr>)
                      [q1, q2, q3]\<rparr>"

definition demo_batcher :: AtomicBatcher where
  "demo_batcher =
     \<lparr>reference_data = paris_data ''q1'' ''q2'' ''q3'',
      question_lexicon = FrozenIdentifier [''q1'', ''q2'', ''q3''],
      candidate_lexicon = FrozenIdentifier [''Berlin'', ''Paris''],
      question_ids = \<lparr>ph_dtype = Int32, ph_shape = [None]\<rparr>,
      candidate_ids = \<lparr>ph_dtype = Int32, ph_shape = [None, None]\<rparr>,
      target_values = \<lparr>ph_dtype = Float32, ph_shape = [None, None]\<rparr>,
      random_source = Random_init (\<lambda>seed k. k) 0,
      num_candidates = 2,
      num_questions = 3\<rparr>"

definition unseen_data :: dataset where
  "unseen_data =
     \<lparr>globals = \<lparr>candidates = []\<rparr>,
      instances = [\<lparr>questions = [\<lparr>question = ''q4'', answers = [\<lparr>answer_text = ''Paris''\<rparr>]\<rparr>]\<rparr>]\<rparr>"




section \<open>Properties of the primitives\<close>

lemma randint_range:
  "randint a b r = (Inr v, r') \<Longrightarrow> a \<le> v \<and> v \<le> b"
proof -
  assume h: "randint a b r = (Inr v, r')"
  then have ab: "a \<le> b" by (auto simp: randint_def split: if_splits)
  define m where "m = int (outputs r (consumed r)) mod (b - a + 1)"
  have "0 \<le> m" unfolding m_def by (rule pos_mod_sign) (use ab in simp)
  moreover have "m < b - a + 1" unfolding m_def by (rule pos_mod_bound) (use ab in simp)
  moreover have "v = a + m" using h ab by (auto simp: randint_def m_def)
  ultimately show ?thesis by simp
qed

lemma draws_closed_form:
  "draws ks a b r =
     (if ks = [] then (Inr [], r)
      else if b < a then (Inl ValueError, r)
      else (Inr (map (\<lambda>k. a + int (outputs r (consumed r + k)) mod (b - a + 1)) [0..<length ks]),
            r\<lparr>consumed := consumed r + length ks\<rparr>))"
proof (induction ks arbitrary: r)
  case Nil
  then show ?case by simp
next
  case (Cons k ks)
  show ?case
  proof (cases "b < a")
    case True
    then show ?thesis by (simp add: randint_def)
  next
    case False
    have up: "[0..<Suc (length ks)] = 0 # map Suc [0..<length ks]"
      by (simp add: upt_conv_Cons map_Suc_upt del: upt_Suc)
    show ?thesis
      using False
      by (simp add: randint_def Cons.IH up comp_def del: upt_Suc)
  qed
qed

lemma py_range_0_int: "py_range 0 (int n) = map int [0..<n]"
  by (simp add: py_range_def)

lemma py_slice_window:
  assumes "(Suc k) * n \<le> length xs"
  shows "py_slice xs (int k * int n) ((int k + 1) * int n) = take n (drop (k * n) xs)"
proof -
  have 1: "int k * int n = int (k * n)" by simp
  have 2: "(int k + 1) * int n = int (Suc k * n)" by (simp add: algebra_simps)
  have 3: "k * n \<le> length xs" using assms by simp
  have 4: "nat (int (Suc k * n) - int (k * n)) = n" by simp
  show ?thesis
    unfolding 1 2 py_slice_def Let_def using assms 3 4
    by (simp add: min_def del: of_nat_mult of_nat_add mult_Suc)
qed

lemma question_id_random [simp]:
  "question_id (self\<lparr>random_source := r\<rparr>) = question_id self"
  by (rule ext) (simp add: question_id_def split: sum.splits)

lemma answer_id_random [simp]:
  "answer_id (self\<lparr>random_source := r\<rparr>) = answer_id self"
  by (rule ext) (simp add: answer_id_def split: sum.splits)

lemma index_from_range:
  "index_from i xs s = Inr v \<Longrightarrow> i \<le> v \<and> v < i + int (length xs)"
  by (induction xs arbitrary: i) (force split: if_splits)+

lemma index_from_KeyError:
  "index_from i xs s = Inl e \<longleftrightarrow> (e = KeyError \<and> s \<notin> set xs)"
  by (induction xs arbitrary: i) auto

lemma getitem_range: "getitem fi s = Inr v \<Longrightarrow> 0 \<le> v \<and> v < len fi"
  using index_from_range [of 0 "symbols fi" s v] by (simp add: getitem_def len_def)

lemma getitem_Inl: "getitem fi s = Inl e \<longleftrightarrow> (e = KeyError \<and> s \<notin> set (symbols fi))"
  by (simp add: getitem_def index_from_KeyError)

lemma answer_id_len: "answer_id self inst = Inr v \<Longrightarrow> 0 \<le> v \<and> v < len (candidate_lexicon self)"
  by (auto simp: answer_id_def split: sum.splits dest: getitem_range)

text \<open>The loop body in closed form, for a window given by natural numbers.\<close>

lemma make_batch_eq:
  "make_batch self insts (int n) (int k) =
     (let window = py_slice insts (int k * int n) ((int k + 1) * int n);
          c = len (candidate_lexicon self); r = random_source self
      in case comprehension (question_id self) window of
           Inl e \<Rightarrow> (Inl e, self)
         | Inr qids \<Rightarrow>
             (case comprehension (answer_id self) window of
                Inl e \<Rightarrow> (Inl e, self)
              | Inr aids \<Rightarrow>
                  if n = 0 then
                    (Inr \<lparr>feed_question_ids = qids, feed_candidate_ids = [],
                          feed_target_values = []\<rparr>, self)
                  else if c < 1 then (Inl ValueError, self)
                  else
                    (Inr \<lparr>feed_question_ids = qids,
                          feed_candidate_ids =
                            zip aids (map (\<lambda>i. int (outputs r (consumed r + i)) mod c) [0..<n]),
                          feed_target_values = replicate n (1, 0)\<rparr>,
                     self\<lparr>random_source := r\<lparr>consumed := consumed r + n\<rparr>\<rparr>)))"
  by (simp add: make_batch_def Let_def py_range_def draws_closed_form map_replicate_const
           split: sum.splits)

section \<open>Properties of the generator\<close>

lemma py_list_Suspended_Nil [simp]:
  "py_list self (Suspended insts B []) = (([], None), self)"
  by (simp add: py_list.simps)

lemma py_list_Suspended_Cons:
  "py_list self (Suspended insts B (b # bs)) =
     (case make_batch self insts B b of
        (Inl e, self') \<Rightarrow> (([], Some e), self')
      | (Inr x, self') \<Rightarrow>
          (case py_list self' (Suspended insts B bs) of
             ((xs, err), self'') \<Rightarrow> ((x # xs, err), self'')))"
  by (subst py_list.simps) (simp split: prod.splits sum.splits)

lemma py_list_Created:
  "py_list self (Created data B test) =
     (if B = 0 then (([], Some ZeroDivisionError), self)
      else py_list self (Suspended (instances_of self data) B
             (py_range 0 (int (length (instances_of self data)) div B))))"
  by (simp add: py_list.simps [of self "Created data B test"]
        py_list.simps [of self "Suspended (instances_of self data) B
             (py_range 0 (int (length (instances_of self data)) div B))"] Let_def)

lemma py_list_Finished [simp]: "py_list self Finished = (([], None), self)"
  by (simp add: py_list.simps)

lemma comprehension_length:
  "comprehension f xs = Inr ys \<Longrightarrow> length ys = length xs"
  by (induction xs arbitrary: ys) (auto split: sum.splits)

lemma comprehension_nth:
  "comprehension f xs = Inr ys \<Longrightarrow> i < length xs \<Longrightarrow> f (xs ! i) = Inr (ys ! i)"
  by (induction xs arbitrary: ys i) (auto split: sum.splits simp: nth_Cons split: nat.splits)

lemma comprehension_Inr_iff:
  "(\<exists>ys. comprehension f xs = Inr ys) \<longleftrightarrow> (\<forall>x \<in> set xs. \<exists>y. f x = Inr y)"
  by (induction xs) (auto split: sum.splits)

lemma make_batch_Inr:
  assumes mb: "make_batch self insts (int n) (int k) = (Inr x, self')"
    and n: "0 < n" and fit: "Suc k * n \<le> length insts"
  shows "length (feed_question_ids x) = n"
    and "length (feed_candidate_ids x) = n"
    and "feed_target_values x = replicate n (1, 0)"
    and "1 \<le> len (candidate_lexicon self)"
    and "self' = self\<lparr>random_source :=
           (random_source self)\<lparr>consumed := consumed (random_source self) + n\<rparr>\<rparr>"
    and "i < n \<Longrightarrow> question_id self (insts ! (k * n + i)) = Inr (feed_question_ids x ! i)"
    and "i < n \<Longrightarrow> answer_id self (insts ! (k * n + i)) = Inr (fst (feed_candidate_ids x ! i))"
    and "i < n \<Longrightarrow> snd (feed_candidate_ids x ! i) =
           int (outputs (random_source self) (consumed (random_source self) + i))
             mod len (candidate_lexicon self)"
proof -
  define window where "window = take n (drop (k * n) insts)"
  have w: "py_slice insts (int k * int n) ((int k + 1) * int n) = window"
    unfolding window_def by (rule py_slice_window [OF fit])
  have lw: "length window = n" using fit by (simp add: window_def)
  have wn: "window ! i = insts ! (k * n + i)" if "i < n" for i
    using that fit by (simp add: window_def)
  obtain qids where q: "comprehension (question_id self) window = Inr qids"
    using mb n by (auto simp: make_batch_eq w Let_def split: sum.splits)
  obtain aids where a: "comprehension (answer_id self) window = Inr aids"
    using mb n q by (auto simp: make_batch_eq w Let_def split: sum.splits)
  have c: "1 \<le> len (candidate_lexicon self)"
    using mb n q a by (auto simp: make_batch_eq w Let_def split: if_splits)
  define r where "r = random_source self"
  define negs where
    "negs = map (\<lambda>i. int (outputs r (consumed r + i)) mod len (candidate_lexicon self)) [0..<n]"
  have x: "x = \<lparr>feed_question_ids = qids, feed_candidate_ids = zip aids negs,
                feed_target_values = replicate n (1, 0)\<rparr>"
    and s: "self' = self\<lparr>random_source := r\<lparr>consumed := consumed r + n\<rparr>\<rparr>"
    using mb n q a c by (auto simp: make_batch_eq w Let_def r_def negs_def)
  have lq: "length qids = n" using comprehension_length [OF q] lw by simp
  have la: "length aids = n" using comprehension_length [OF a] lw by simp
  have ln: "length negs = n" by (simp add: negs_def)
  show "length (feed_question_ids x) = n" by (simp add: x lq)
  show "length (feed_candidate_ids x) = n" by (simp add: x la ln)
  show "feed_target_values x = replicate n (1, 0)" by (simp add: x)
  show "1 \<le> len (candidate_lexicon self)" by (rule c)
  show "self' = self\<lparr>random_source :=
           (random_source self)\<lparr>consumed := consumed (random_source self) + n\<rparr>\<rparr>"
    by (simp add: s r_def)
  show "question_id self (insts ! (k * n + i)) = Inr (feed_question_ids x ! i)" if "i < n"
    using comprehension_nth [OF q, of i] that lw wn by (simp add: x)
  show "answer_id self (insts ! (k * n + i)) = Inr (fst (feed_candidate_ids x ! i))" if "i < n"
    using comprehension_nth [OF a, of i] that lw wn la ln by (simp add: x)
  show "snd (feed_candidate_ids x ! i) =
           int (outputs (random_source self) (consumed (random_source self) + i))
             mod len (candidate_lexicon self)" if "i < n"
    using that la ln by (simp add: x negs_def r_def)
qed

lemma make_batch_Inl:
  "make_batch self insts (int n) (int k) = (Inl e, self') \<Longrightarrow> self' = self"
  by (auto simp: make_batch_eq Let_def split: sum.splits if_splits)

lemma advance_0 [simp]: "advance self 0 = self"
  by (simp add: advance_def)

lemma advance_advance [simp]: "advance (advance self a) b = advance self (a + b)"
  by (simp add: advance_def add.assoc)

lemma py_list_Suspended_batches:
  assumes "py_list self (Suspended insts (int n) (map int ks)) = ((batches, err), self')"
    and "0 < n" and "\<forall>k\<in>set ks. Suc k * n \<le> length insts"
  shows "length batches \<le> length ks \<and> self' = advance self (n * length batches) \<and>
         (err = None \<longleftrightarrow> length batches = length ks) \<and>
         (\<forall>j<length batches.
            make_batch (advance self (n * j)) insts (int n) (int (ks ! j)) =
              (Inr (batches ! j), advance self (n * Suc j)))"
  using assms
proof (induction ks arbitrary: self batches err self')
  case Nil
  then show ?case by simp
next
  case (Cons k ks)
  show ?case
  proof (cases "make_batch self insts (int n) (int k)")
    case (Pair res s1)
    show ?thesis
    proof (cases res)
      case (Inl e)
      then show ?thesis
        using Cons.prems Pair make_batch_Inl [of self insts n k e s1]
        by (auto simp: py_list_Suspended_Cons)
    next
      case (Inr x)
      have s1: "s1 = advance self n"
        using make_batch_Inr(5) [of self insts n k x s1] Pair Inr Cons.prems
        by (simp add: advance_def)
      obtain xs err1 s2 where rest: "py_list s1 (Suspended insts (int n) (map int ks)) = ((xs, err1), s2)"
        by (metis prod.exhaust)
      have b: "batches = x # xs" "err = err1" "self' = s2"
        using Cons.prems(1) Pair Inr rest by (simp_all add: py_list_Suspended_Cons)
      have IH: "length xs \<le> length ks \<and> s2 = advance s1 (n * length xs) \<and>
         (err1 = None \<longleftrightarrow> length xs = length ks) \<and>
         (\<forall>j<length xs.
            make_batch (advance s1 (n * j)) insts (int n) (int (ks ! j)) =
              (Inr (xs ! j), advance s1 (n * Suc j)))"
        using Cons.IH [OF rest] Cons.prems by simp
      have "make_batch (advance self (n * j)) insts (int n) (int ((k # ks) ! j)) =
              (Inr ((x # xs) ! j), advance self (n * Suc j))" if "j < length (x # xs)" for j
      proof (cases j)
        case 0
        then show ?thesis using Pair Inr s1 by simp
      next
        case (Suc j')
        then show ?thesis using IH that by (simp add: s1 add.commute)
      qed
      then show ?thesis using IH b by (simp add: s1 add.commute)
    qed
  qed
qed

lemma py_list_Suspended_ok:
  assumes "0 < n" and "\<forall>k\<in>set ks. Suc k * n \<le> length insts"
    and "\<forall>k\<in>set ks. \<forall>inst\<in>set (take n (drop (k * n) insts)).
           (\<exists>v. question_id self inst = Inr v) \<and> (\<exists>v. answer_id self inst = Inr v)"
  shows "\<exists>batches. py_list self (Suspended insts (int n) (map int ks)) =
           ((batches, None), advance self (n * length ks)) \<and> length batches = length ks"
  using assms
proof (induction ks arbitrary: self)
  case Nil
  then show ?case by simp
next
  case (Cons k ks)
  define window where "window = take n (drop (k * n) insts)"
  have fit: "Suc k * n \<le> length insts" using Cons.prems by simp
  have w: "py_slice insts (int k * int n) ((int k + 1) * int n) = window"
    unfolding window_def by (rule py_slice_window [OF fit])
  have lw: "length window = n" using fit by (simp add: window_def)
  have ok: "\<forall>inst\<in>set window. (\<exists>v. question_id self inst = Inr v) \<and> (\<exists>v. answer_id self inst = Inr v)"
    using Cons.prems by (simp add: window_def)
  obtain qids where q: "comprehension (question_id self) window = Inr qids"
    using ok comprehension_Inr_iff [of "question_id self" window] by blast
  obtain aids where a: "comprehension (answer_id self) window = Inr aids"
    using ok comprehension_Inr_iff [of "answer_id self" window] by blast
  have "window \<noteq> []" using lw \<open>0 < n\<close> by auto
  then obtain inst where "inst \<in> set window" by (cases window) auto
  then obtain v where "answer_id self inst = Inr v" using ok by blast
  then have c: "1 \<le> len (candidate_lexicon self)" using answer_id_len [of self inst v] by simp
  obtain x where mb: "make_batch self insts (int n) (int k) = (Inr x, advance self n)"
    using q a c \<open>0 < n\<close> by (simp add: make_batch_eq w Let_def advance_def)
  have "\<exists>batches. py_list (advance self n) (Suspended insts (int n) (map int ks)) =
           ((batches, None), advance (advance self n) (n * length ks)) \<and> length batches = length ks"
    using Cons.prems by (intro Cons.IH) (simp_all add: advance_def)
  then obtain xs where "py_list (advance self n) (Suspended insts (int n) (map int ks)) =
           ((xs, None), advance self (n + n * length ks))" "length xs = length ks"
    by auto
  then show ?case using mb by (simp add: py_list_Suspended_Cons)
qed

lemma succeeds_iff: "succeeds r \<longleftrightarrow> (\<exists>v. r = Inr v)"
  by (cases r) (simp_all add: succeeds_def)

lemma py_list_create_batches_pos:
  assumes "0 < B"
  shows "py_list self (create_batches self data B test) =
         py_list self (Suspended (instances_of self data) (int (nat B))
           (map int [0..<length (instances_of self data) div nat B]))"
proof -
  have "int (length (instances_of self data)) div B
          = int (length (instances_of self data) div nat B)"
    using assms by (simp add: zdiv_int)
  then show ?thesis
    using assms by (simp add: create_batches_def py_list_Created py_range_0_int)
qed

lemma py_list_create_batches_nonpos:
  assumes "B \<le> 0"
  shows "py_list self (create_batches self data B test) =
         (([], if B = 0 then Some ZeroDivisionError else None), self)"
proof (cases "B = 0")
  case True
  then show ?thesis by (simp add: create_batches_def py_list_Created)
next
  case False
  then have "int (length (instances_of self data)) div B \<le> 0"
    using assms by (simp add: div_nonneg_neg_le0)
  then have "py_range 0 (int (length (instances_of self data)) div B) = []"
    by (simp add: py_range_def)
  then show ?thesis using False by (simp add: create_batches_def py_list_Created)
qed

lemma window_fits: "k < L div n \<Longrightarrow> Suc k * n \<le> L"
proof -
  assume "k < L div n"
  then have "Suc k * n \<le> (L div n) * n" by (intro mult_le_mono1) simp
  also have "\<dots> \<le> L" by simp
  finally show ?thesis .
qed

lemma advance_simps [simp]:
  "question_id (advance self m) = question_id self"
  "answer_id (advance self m) = answer_id self"
  "candidate_lexicon (advance self m) = candidate_lexicon self"
  "question_lexicon (advance self m) = question_lexicon self"
  "outputs (random_source (advance self m)) = outputs (random_source self)"
  "consumed (random_source (advance self m)) = consumed (random_source self) + m"
  by (simp_all add: advance_def)

lemma batch_facts:
  assumes B: "0 < B"
    and j: "j < length (yielded self (create_batches self data B test))"
  shows "Suc j * nat B \<le> length (instances_of self data)"
    and "length (feed_question_ids (yielded self (create_batches self data B test) ! j)) = nat B"
    and "length (feed_candidate_ids (yielded self (create_batches self data B test) ! j)) = nat B"
    and "feed_target_values (yielded self (create_batches self data B test) ! j)
           = replicate (nat B) (1, 0)"
    and "1 \<le> len (candidate_lexicon self)"
    and "i < nat B \<Longrightarrow>
           question_id self (instances_of self data ! (j * nat B + i)) =
             Inr (feed_question_ids (yielded self (create_batches self data B test) ! j) ! i)"
    and "i < nat B \<Longrightarrow>
           answer_id self (instances_of self data ! (j * nat B + i)) =
             Inr (fst (feed_candidate_ids (yielded self (create_batches self data B test) ! j) ! i))"
    and "i < nat B \<Longrightarrow>
           snd (feed_candidate_ids (yielded self (create_batches self data B test) ! j) ! i) =
             int (outputs (random_source self) (consumed (random_source self) + j * nat B + i))
               mod len (candidate_lexicon self)"
proof -
  define n where "n = nat B"
  define insts where "insts = instances_of self data"
  define ks where "ks = [0..<length insts div n]"
  define batches where "batches = yielded self (create_batches self data B test)"
  have n: "0 < n" using B by (simp add: n_def)
  have eq: "py_list self (create_batches self data B test) =
            py_list self (Suspended insts (int n) (map int ks))"
    unfolding n_def insts_def ks_def by (rule py_list_create_batches_pos [OF B])
  have "py_list self (Suspended insts (int n) (map int ks)) =
          ((batches, raised self (create_batches self data B test)),
           batcher_after self (create_batches self data B test))"
    unfolding batches_def yielded_def raised_def batcher_after_def eq by simp
  then obtain err self' where run:
    "py_list self (Suspended insts (int n) (map int ks)) = ((batches, err), self')"
    by blast
  have fits: "\<forall>k\<in>set ks. Suc k * n \<le> length insts"
    using window_fits [of _ "length insts" n] by (auto simp: ks_def)
  note facts = py_list_Suspended_batches [OF run n fits]
  have jl: "j < length batches" using j by (simp add: batches_def)
  then have jk: "j < length ks" using facts by simp
  then have kj: "ks ! j = j" by (simp add: ks_def)
  have fit: "Suc j * n \<le> length insts" using fits jk kj nth_mem [OF jk] by metis
  have "make_batch (advance self (n * j)) insts (int n) (int (ks ! j)) =
              (Inr (batches ! j), advance self (n * Suc j))"
    using facts jl by blast
  then have mb: "make_batch (advance self (n * j)) insts (int n) (int j) =
              (Inr (batches ! j), advance self (n * Suc j))"
    unfolding kj .
  note m = make_batch_Inr [OF mb n fit]
  show "Suc j * nat B \<le> length (instances_of self data)"
    using fit by (simp add: n_def insts_def)
  show "length (feed_question_ids (yielded self (create_batches self data B test) ! j)) = nat B"
    using m(1) by (simp add: n_def batches_def)
  show "length (feed_candidate_ids (yielded self (create_batches self data B test) ! j)) = nat B"
    using m(2) by (simp add: n_def batches_def)
  show "feed_target_values (yielded self (create_batches self data B test) ! j)
           = replicate (nat B) (1, 0)"
    using m(3) by (simp add: n_def batches_def)
  show "1 \<le> len (candidate_lexicon self)" using m(4) by simp
  show "question_id self (instances_of self data ! (j * nat B + i)) =
             Inr (feed_question_ids (yielded self (create_batches self data B test) ! j) ! i)"
    if "i < nat B"
    using m(6) [of i] that by (simp add: n_def batches_def insts_def)
  show "answer_id self (instances_of self data ! (j * nat B + i)) =
             Inr (fst (feed_candidate_ids (yielded self (create_batches self data B test) ! j) ! i))"
    if "i < nat B"
    using m(7) [of i] that by (simp add: n_def batches_def insts_def)
  show "snd (feed_candidate_ids (yielded self (create_batches self data B test) ! j) ! i) =
             int (outputs (random_source self) (consumed (random_source self) + j * nat B + i))
               mod len (candidate_lexicon self)"
    if "i < nat B"
    using m(8) [of i] that by (simp add: n_def batches_def mult.commute)
qed

lemma yielded_nonpos: "B \<le> 0 \<Longrightarrow> yielded self (create_batches self data B test) = []"
  by (simp add: yielded_def py_list_create_batches_nonpos)

section \<open>The batcher is only changed in its random source\<close>

lemma frame_refl [simp]: "frame self self"
  by (simp add: frame_def)

lemma frame_update [simp]: "frame self (self\<lparr>random_source := r\<rparr>)"
  by (simp add: frame_def)

lemma frame_trans: "frame a b \<Longrightarrow> frame b c \<Longrightarrow> frame a c"
  by (cases a, cases b, cases c) (simp add: frame_def)

lemma frame_instances_of: "frame self self' \<Longrightarrow> instances_of self' data = instances_of self data"
  by (cases self, cases self') (simp add: frame_def instances_of_def split: option.splits)

lemma frame_held: "frame self self' \<Longrightarrow> held_instances self' g = held_instances self g"
  by (cases g) (simp_all add: frame_instances_of)

lemma make_batch_frame: "frame self (snd (make_batch self insts B b))"
  by (simp add: make_batch_def Let_def split: sum.splits prod.splits)

lemma loop_step_frame:
  assumes "loop_step self insts B bs = (out, self', g')"
  shows "frame self self' \<and> (g' = Finished \<or> (\<exists>bs'. g' = Suspended insts B bs'))"
proof (cases bs)
  case Nil
  then show ?thesis using assms by auto
next
  case (Cons b bs')
  then show ?thesis
    using assms make_batch_frame [of self insts B b]
    by (auto split: prod.splits sum.splits)
qed

lemma gen_next_frame:
  assumes "gen_next self g = (out, self', g')"
  shows "frame self self' \<and>
         (held_instances self' g' = None \<or> held_instances self' g' = held_instances self g)"
proof (cases g)
  case (Created data B test)
  then show ?thesis
    using assms
      loop_step_frame [of self "instances_of self data" B
        "py_range 0 (int (length (instances_of self data)) div B)" out self' g']
    by (auto simp: Let_def split: if_splits)
next
  case (Suspended insts B bs)
  then show ?thesis
    using assms loop_step_frame [of self insts B bs out self' g'] by auto
next
  case Finished
  then show ?thesis using assms by auto
qed

lemma islice_frame:
  "islice n self g = (res, self', g') \<Longrightarrow>
     frame self self' \<and>
     (held_instances self' g' = None \<or> held_instances self' g' = held_instances self g)"
proof (induction n arbitrary: self g res self' g')
  case 0
  then show ?case by auto
next
  case (Suc n)
  obtain out s1 g1 where step: "gen_next self g = (out, s1, g1)"
    by (metis prod.exhaust)
  note f = gen_next_frame [OF step]
  show ?case
  proof (cases out)
    case (Yield x)
    obtain res2 s2 g2 where rest: "islice n s1 g1 = (res2, s2, g2)"
      by (metis prod.exhaust)
    have eq: "self' = s2" "g' = g2"
      using Suc.prems step Yield rest by (auto split: prod.splits)
    have "frame s1 s2" using Suc.IH [OF rest] by simp
    then have a: "frame self s2" using f frame_trans by blast
    have "held_instances s2 g2 = None \<or> held_instances s2 g2 = held_instances s1 g1"
      using Suc.IH [OF rest] by simp
    then have b: "held_instances s2 g2 = None \<or> held_instances s2 g2 = held_instances self g"
      using f by auto
    show ?thesis unfolding eq using a b by simp
  next
    case StopIteration
    then show ?thesis using Suc.prems step f by auto
  next
    case (Raise e)
    then show ?thesis using Suc.prems step f by auto
  qed
qed

lemma py_list_frame: "frame self (snd (py_list self g))"
proof (induction self g rule: py_list.induct)
  case (1 self g)
  obtain out s1 g1 where step: "gen_next self g = (out, s1, g1)"
    by (metis prod.exhaust)
  note f = gen_next_frame [OF step]
  show ?case
  proof (cases out)
    case (Yield x)
    have "frame s1 (snd (py_list s1 g1))"
      using "1.IH" step Yield by simp
    then have "frame self (snd (py_list s1 g1))" using f frame_trans by blast
    then show ?thesis
      using step Yield by (subst py_list.simps) (auto split: prod.splits)
  next
    case StopIteration
    then show ?thesis using f step by (subst py_list.simps) auto
  next
    case (Raise e)
    then show ?thesis using f step by (subst py_list.simps) auto
  qed
qed

section \<open>Complete iterations\<close>

lemma make_batch_take:
  assumes "Suc k * n \<le> m" "m \<le> length insts"
  shows "make_batch self (take m insts) (int n) (int k) = make_batch self insts (int n) (int k)"
proof -
  have 1: "py_slice (take m insts) (int k * int n) ((int k + 1) * int n)
             = take n (drop (k * n) (take m insts))"
    by (rule py_slice_window) (use assms in simp)
  have 2: "py_slice insts (int k * int n) ((int k + 1) * int n) = take n (drop (k * n) insts)"
    by (rule py_slice_window) (use assms in simp)
  have "k * n + n \<le> m" using assms by simp
  then have 3: "take n (drop (k * n) (take m insts)) = take n (drop (k * n) insts)"
    by (simp add: drop_take min_def)
  show ?thesis by (simp add: make_batch_def 1 2 3)
qed

lemma py_list_Suspended_take:
  assumes "\<forall>k\<in>set ks. Suc k * n \<le> m" "m \<le> length insts"
  shows "py_list self (Suspended (take m insts) (int n) (map int ks))
           = py_list self (Suspended insts (int n) (map int ks))"
  using assms
proof (induction ks arbitrary: self)
  case Nil
  then show ?case by simp
next
  case (Cons k ks)
  have "make_batch self (take m insts) (int n) (int k) = make_batch self insts (int n) (int k)"
    using Cons.prems by (intro make_batch_take) simp_all
  moreover have "py_list s (Suspended (take m insts) (int n) (map int ks))
           = py_list s (Suspended insts (int n) (map int ks))" for s
    using Cons.prems by (intro Cons.IH) simp_all
  ultimately show ?case by (simp add: py_list_Suspended_Cons split: prod.splits sum.splits)
qed

lemma full_windows: "L - L mod n = L div n * n" for L n :: nat
  by (simp add: minus_mod_eq_div_mult)

lemma window_subset:
  assumes "k < length insts div n"
  shows "set (take n (drop (k * n) insts)) \<subseteq> set (take (length insts div n * n) insts)"
proof -
  have "Suc k * n \<le> length insts div n * n"
    using assms by (intro mult_le_mono1) simp
  then have "k * n + n \<le> length insts div n * n"
    by simp
  then have "take n (drop (k * n) insts) = drop (k * n) (take (k * n + n) insts)"
    by (simp add: drop_take)
  moreover have "set (drop (k * n) (take (k * n + n) insts)) \<subseteq> set (take (k * n + n) insts)"
    by (rule set_drop_subset)
  moreover have "set (take (k * n + n) insts) \<subseteq> set (take (length insts div n * n) insts)"
    using \<open>k * n + n \<le> length insts div n * n\<close> by (rule set_take_subset_set_take)
  ultimately show ?thesis by simp
qed

lemmas eval_defs =
  create_batches_def py_list_Created py_list_Suspended_Cons py_range_def make_batch_def
  py_slice_def question_id_def answer_id_def question_of_def answer_of_def
  getitem_def len_def randint_def instances_of_def Let_def
  demo_batcher_def paris_data_def unseen_data_def Random_init_def upt_rec

lemma demo_init: "AtomicBatcher_init (\<lambda>seed k. k) (paris_data ''q1'' ''q2'' ''q3'') = Inr demo_batcher"
  by (simp add: AtomicBatcher_init_def FrozenIdentifier_build_def sorted_list_of_set_sort_remdups
        question_of_def len_def demo_batcher_def paris_data_def Let_def)

lemma demo_run:
  "py_list demo_batcher (create_batches demo_batcher None 2 False) =
     (([\<lparr>feed_question_ids = [0, 1], feed_candidate_ids = [(1, 0), (1, 1)],
         feed_target_values = [(1, 0), (1, 0)]\<rparr>], None),
      demo_batcher\<lparr>random_source := \<lparr>outputs = (\<lambda>k. k), consumed = 2\<rparr>\<rparr>)"
  by (simp add: eval_defs)

lemma unseen_run:
  "py_list demo_batcher (create_batches demo_batcher (Some unseen_data) 1 False) =
     (([], Some KeyError), demo_batcher)"
  by (simp add: eval_defs)

lemma yielded_pos:
  "j < length (yielded self (create_batches self data B test)) \<Longrightarrow> 0 < B"
  using yielded_nonpos [of B self data test] by (cases "0 < B") simp_all

lemma consumed_per_element:
  "consumed (random_source (batcher_after self (create_batches self data B test)))
     = consumed (random_source self)
       + sum_list (map (\<lambda>x. length (feed_candidate_ids x))
                    (yielded self (create_batches self data B test)))"
proof (cases "0 < B")
  case False
  then have "py_list self (create_batches self data B test) =
         (([], if B = 0 then Some ZeroDivisionError else None), self)"
    by (intro py_list_create_batches_nonpos) simp
  then show ?thesis by (simp add: yielded_def batcher_after_def)
next
  case True
  define n where "n = nat B"
  define insts where "insts = instances_of self data"
  define ks where "ks = [0..<length insts div n]"
  define g where "g = create_batches self data B test"
  have n: "0 < n" using True by (simp add: n_def)
  have eq: "py_list self g = py_list self (Suspended insts (int n) (map int ks))"
    unfolding n_def insts_def ks_def g_def by (rule py_list_create_batches_pos [OF True])
  have run: "py_list self (Suspended insts (int n) (map int ks)) =
          ((yielded self g, raised self g), batcher_after self g)"
    unfolding yielded_def raised_def batcher_after_def eq by simp
  have fits: "\<forall>k\<in>set ks. Suc k * n \<le> length insts"
    using window_fits [of _ "length insts" n] by (auto simp: ks_def)
  note facts = py_list_Suspended_batches [OF run n fits]
  have after: "batcher_after self g = advance self (n * length (yielded self g))"
    using facts by simp
  have "length (feed_candidate_ids x) = n" if "x \<in> set (yielded self g)" for x
  proof -
    from that have "\<exists>j<length (yielded self g). yielded self g ! j = x"
      by (simp only: in_set_conv_nth)
    then obtain j where j: "j < length (yielded self g)" "x = yielded self g ! j"
      by blast
    show ?thesis
      using batch_facts(3) [OF True, of j self data test] j by (simp add: g_def n_def)
  qed
  then have m: "map (\<lambda>x. length (feed_candidate_ids x)) (yielded self g)
               = map (\<lambda>_. n) (yielded self g)"
    by (intro map_cong) simp_all
  have s: "sum_list (map (\<lambda>_. n) (yielded self g)) = n * length (yielded self g)"
    by (simp add: sum_list_triv)
  have "sum_list (map (\<lambda>x. length (feed_candidate_ids x)) (yielded self g))
               = n * length (yielded self g)"
    by (subst m) (rule s)
  then show ?thesis
    using after by (simp add: g_def)
qed

lemma comprehension_Inl:
  "comprehension f xs = Inl e \<Longrightarrow> \<exists>x\<in>set xs. f x = Inl e"
  by (induction xs) (auto split: sum.splits)

lemma question_id_error:
  "succeeds (answer_of inst) \<Longrightarrow> question_id self inst = Inl e \<Longrightarrow> e = KeyError"
  by (auto simp: succeeds_def answer_of_def question_of_def question_id_def getitem_Inl
           split: sum.splits)

lemma answer_id_error:
  "succeeds (answer_of inst) \<Longrightarrow> answer_id self inst = Inl e \<Longrightarrow> e = KeyError"
  by (auto simp: succeeds_def answer_id_def getitem_Inl split: sum.splits)

text \<open>The first call of next on a generator with at least one full window.\<close>

lemma first_next:
  assumes "0 < n" "n \<le> length (instances_of self data)"
  shows "gen_next self (create_batches self data (int n) test) =
           (case make_batch self (instances_of self data) (int n) (int 0) of
              (Inl e, self') \<Rightarrow> (Raise e, self', Finished)
            | (Inr x, self') \<Rightarrow>
                (Yield x, self',
                 Suspended (instances_of self data) (int n)
                   (map int [Suc 0..<length (instances_of self data) div n])))"
    and "py_slice (instances_of self data) (int 0 * int n) ((int 0 + 1) * int n)
           = take n (instances_of self data)"
proof -
  have "1 \<le> length (instances_of self data) div n"
    using assms by (simp add: Suc_le_eq div_greater_zero_iff)
  then have "0 < length (instances_of self data) div n" by simp
  then have r: "[0..<length (instances_of self data) div n]
                  = 0 # [Suc 0..<length (instances_of self data) div n]"
    by (simp add: upt_conv_Cons)
  have "int (length (instances_of self data)) div int n
          = int (length (instances_of self data) div n)"
    by (simp add: zdiv_int)
  then have "py_range 0 (int (length (instances_of self data)) div int n)
               = int 0 # map int [Suc 0..<length (instances_of self data) div n]"
    by (simp add: py_range_0_int r del: upt_Suc)
  then show "gen_next self (create_batches self data (int n) test) =
           (case make_batch self (instances_of self data) (int n) (int 0) of
              (Inl e, self') \<Rightarrow> (Raise e, self', Finished)
            | (Inr x, self') \<Rightarrow>
                (Yield x, self',
                 Suspended (instances_of self data) (int n)
                   (map int [Suc 0..<length (instances_of self data) div n])))"
    using assms by (simp add: create_batches_def Let_def)
  have "py_slice (instances_of self data) (int 0 * int n) ((int 0 + 1) * int n)
          = take n (drop (0 * n) (instances_of self data))"
    by (rule py_slice_window) (use assms in simp)
  then show "py_slice (instances_of self data) (int 0 * int n) ((int 0 + 1) * int n)
           = take n (instances_of self data)"
    by simp
qed

lemma py_list_Raise:
  "gen_next self g = (Raise e, self', g') \<Longrightarrow> py_list self g = (([], Some e), self')"
  by (subst py_list.simps) simp


section \<open>The constructor\<close>

lemma init_fields:
  assumes "AtomicBatcher_init prng rd = Inr b"
  shows "random_source b = Random_init prng 0"
    and "num_candidates b = len (candidate_lexicon b)"
    and "num_questions b = len (question_lexicon b)"
    and "reference_data b = rd"
    and "candidate_lexicon b =
           FrozenIdentifier_build (set (map candidate_text (candidates (globals rd))))"
    and "\<exists>qs. comprehension question_of (instances rd) = Inr qs \<and>
              question_lexicon b = FrozenIdentifier_build (set qs)"
  using assms by (auto simp: AtomicBatcher_init_def Let_def split: sum.splits)

lemma symbols_build: "finite S \<Longrightarrow> set (symbols (FrozenIdentifier_build S)) = S"
  by (simp add: FrozenIdentifier_build_def)

section \<open>The example run\<close>

lemma demo_yielded:
  "yielded demo_batcher (create_batches demo_batcher None 2 False) =
     [\<lparr>feed_question_ids = [0, 1], feed_candidate_ids = [(1, 0), (1, 1)],
       feed_target_values = [(1, 0), (1, 0)]\<rparr>]"
  by (simp add: yielded_def demo_run)

lemma demo_instances:
  "instances_of demo_batcher None =
     [\<lparr>questions = [\<lparr>question = ''q1'', answers = [\<lparr>answer_text = ''Paris''\<rparr>]\<rparr>]\<rparr>,
      \<lparr>questions = [\<lparr>question = ''q2'', answers = [\<lparr>answer_text = ''Paris''\<rparr>]\<rparr>]\<rparr>,
      \<lparr>questions = [\<lparr>question = ''q3'', answers = [\<lparr>answer_text = ''Paris''\<rparr>]\<rparr>]\<rparr>]"
  by (simp add: instances_of_def demo_batcher_def paris_data_def)

section \<open>The scorer\<close>

lemma comprehension_total:
  "(\<And>x. x \<in> set xs \<Longrightarrow> f x = Inr (g x)) \<Longrightarrow> comprehension f xs = Inr (map g xs)"
  by (induction xs) simp_all

lemma broadcast_vectors:
  assumes "length q = length v"
  shows "broadcast (\<lambda>a b. Inr (a * b)) q v = Inr (map (\<lambda>(a, b). a * b) (zip q v))"
  unfolding broadcast_def using assms
  by (simp add: comprehension_total [where g = "\<lambda>(a, b). a * b"] split_def)

lemma broadcast_question:
  assumes "\<forall>v\<in>set c. length v = length q"
  shows "broadcast (broadcast (\<lambda>a b. Inr (a * b))) [q] c
           = Inr (map (\<lambda>v. map (\<lambda>(a, b). a * b) (zip q v)) c)"
proof (cases "length c = 1")
  case True
  then obtain v where c: "c = [v]" by (cases c) auto
  then show ?thesis
    using assms by (simp add: broadcast_def [of _ "[q]"] broadcast_vectors)
next
  case False
  have "comprehension (broadcast (\<lambda>a b. Inr (a * b)) q) c
          = Inr (map (\<lambda>v. map (\<lambda>(a, b). a * b) (zip q v)) c)"
    by (rule comprehension_total) (use assms in \<open>simp add: broadcast_vectors\<close>)
  then show ?thesis
    using False by (simp add: broadcast_def [of _ "[q]"] eq_commute [of "Suc 0"])
qed

lemma sum_list_products:
  fixes q v :: "real list"
  assumes "length q = D" "length v = D"
  shows "sum_list (map (\<lambda>(a, b). a * b) (zip q v)) = (\<Sum>d<D. q ! d * v ! d)"
proof -
  have "sum_list (map (\<lambda>(a, b). a * b) (zip q v))
          = (\<Sum>d = 0..<D. map (\<lambda>(a, b). a * b) (zip q v) ! d)"
    using assms by (simp add: sum_list_sum_nth)
  also have "\<dots> = (\<Sum>d = 0..<D. q ! d * v ! d)"
    by (rule sum.cong) (use assms in simp_all)
  finally show ?thesis by (simp add: atLeast0LessThan)
qed

section \<open>The run without candidates\<close>





section \<open>The claims\<close>

subsection \<open>C1: the number and the size of the batches\<close>

text \<open>
  C1, as amended. For every dataset whose instance list has length \<open>L\<close> and every
  positive batch size \<open>B\<close>, \<^verbatim>\<open>create_batches\<close> yields at most \<open>L // B\<close> batches, and
  in each yielded batch \<open>question_ids\<close>, \<open>candidate_ids\<close> and \<open>target_values\<close>
  have exactly \<open>B\<close> elements each. It yields exactly \<open>L // B\<close> batches and then ends
  normally when every instance among the first \<open>L - L % B\<close> has a first question whose
  text is in the question lexicon and a first answer whose text is in the candidate
  lexicon. The final \<open>L % B\<close> instances never appear: the iteration over the dataset
  without them is the same iteration.

  The claim as stated, exactly \<open>L // B\<close> batches for every dataset, fails on data with a
  text outside the lexicons: the lookup raises and the iteration ends early.
\<close>

theorem create_batches_shape:
  assumes "0 < B"
  shows "int (length (yielded self (create_batches self data B test)))
           \<le> int (length (instances_of self data)) div B
       \<and> (\<forall>x\<in>set (yielded self (create_batches self data B test)).
            length (feed_question_ids x) = nat B \<and>
            length (feed_candidate_ids x) = nat B \<and>
            length (feed_target_values x) = nat B)
       \<and> ((\<forall>inst\<in>set (take (length (instances_of self data)
                                - length (instances_of self data) mod nat B)
                             (instances_of self data)).
              succeeds (question_id self inst) \<and> succeeds (answer_id self inst)) \<longrightarrow>
            int (length (yielded self (create_batches self data B test)))
              = int (length (instances_of self data)) div B \<and>
            raised self (create_batches self data B test) = None)
       \<and> (\<forall>d. instances d = take (length (instances_of self data)
                                    - length (instances_of self data) mod nat B)
                                 (instances_of self data) \<longrightarrow>
              py_list self (create_batches self (Some d) B test)
                = py_list self (create_batches self data B test))"
proof -
  define n where "n = nat B"
  define insts where "insts = instances_of self data"
  define ks where "ks = [0..<length insts div n]"
  define g where "g = create_batches self data B test"
  have n: "0 < n" and Bn: "B = int n" using assms by (simp_all add: n_def)
  have divB: "int (length insts) div B = int (length insts div n)"
    by (simp add: Bn zdiv_int)
  have eq: "py_list self g = py_list self (Suspended insts (int n) (map int ks))"
    unfolding n_def insts_def ks_def g_def by (rule py_list_create_batches_pos [OF assms])
  have run: "py_list self (Suspended insts (int n) (map int ks)) =
          ((yielded self g, raised self g), batcher_after self g)"
    unfolding yielded_def raised_def batcher_after_def eq by simp
  have fits: "\<forall>k\<in>set ks. Suc k * n \<le> length insts"
    using window_fits [of _ "length insts" n] by (auto simp: ks_def)
  note facts = py_list_Suspended_batches [OF run n fits]
  have 1: "int (length (yielded self g)) \<le> int (length insts) div B"
    using facts by (simp add: divB ks_def)
  have 2: "length (feed_question_ids x) = nat B \<and> length (feed_candidate_ids x) = nat B \<and>
           length (feed_target_values x) = nat B" if "x \<in> set (yielded self g)" for x
  proof -
    from that have "\<exists>j<length (yielded self g). yielded self g ! j = x"
      by (simp only: in_set_conv_nth)
    then obtain j where j: "j < length (yielded self g)" "x = yielded self g ! j"
      by blast
    show ?thesis
      using batch_facts(2,3,4) [OF assms, of j self data test] j
      by (simp add: g_def)
  qed
  have 3: "int (length (yielded self g)) = int (length insts) div B \<and> raised self g = None"
    if ok: "\<forall>inst\<in>set (take (length insts - length insts mod n) insts).
              succeeds (question_id self inst) \<and> succeeds (answer_id self inst)"
  proof -
    have "(\<exists>v. question_id self inst = Inr v) \<and> (\<exists>v. answer_id self inst = Inr v)"
      if "k \<in> set ks" "inst \<in> set (take n (drop (k * n) insts))" for k inst
    proof -
      have "k < length insts div n" using that(1) by (simp add: ks_def)
      then have "inst \<in> set (take (length insts div n * n) insts)"
        using window_subset [of k insts n] that(2) by blast
      then have "succeeds (question_id self inst) \<and> succeeds (answer_id self inst)"
        using ok by (simp add: full_windows)
      then show ?thesis by (simp add: succeeds_iff)
    qed
    then have "\<forall>k\<in>set ks. \<forall>inst\<in>set (take n (drop (k * n) insts)).
           (\<exists>v. question_id self inst = Inr v) \<and> (\<exists>v. answer_id self inst = Inr v)"
      by blast
    from py_list_Suspended_ok [OF n fits this]
    show ?thesis using run by (auto simp: divB ks_def)
  qed
  have 4: "py_list self (create_batches self (Some d) B test) = py_list self g"
    if d: "instances d = take (length insts - length insts mod n) insts" for d
  proof -
    define m where "m = length insts div n * n"
    have m: "m \<le> length insts" by (simp add: m_def)
    have d': "instances_of self (Some d) = take m insts"
      using d by (simp add: instances_of_def full_windows m_def)
    have len: "length (take m insts) div n = length insts div n"
      using m n by (simp add: m_def min_def)
    have "Suc k * n \<le> m" if "k \<in> set ks" for k
    proof -
      have "Suc k \<le> length insts div n" using that by (simp add: ks_def)
      then show ?thesis unfolding m_def by (rule mult_le_mono1)
    qed
    then have fits': "\<forall>k\<in>set ks. Suc k * n \<le> m"
      by blast
    have "py_list self (create_batches self (Some d) B test)
            = py_list self (Suspended (take m insts) (int n)
                 (map int [0..<length (take m insts) div n]))"
      using py_list_create_batches_pos [OF assms, of self "Some d" test]
      unfolding d' n_def [symmetric] .
    then have "py_list self (create_batches self (Some d) B test)
            = py_list self (Suspended (take m insts) (int n) (map int ks))"
      unfolding len ks_def .
    also have "\<dots> = py_list self (Suspended insts (int n) (map int ks))"
      by (rule py_list_Suspended_take [OF fits' m])
    finally show ?thesis by (simp add: eq)
  qed
  have c1: "int (length (yielded self (create_batches self data B test)))
           \<le> int (length (instances_of self data)) div B"
    using 1 by (simp add: g_def insts_def)
  have c2: "\<forall>x\<in>set (yielded self (create_batches self data B test)).
            length (feed_question_ids x) = nat B \<and>
            length (feed_candidate_ids x) = nat B \<and>
            length (feed_target_values x) = nat B"
    using 2 unfolding g_def by blast
  have c3: "(\<forall>inst\<in>set (take (length (instances_of self data)
                                - length (instances_of self data) mod nat B)
                             (instances_of self data)).
              succeeds (question_id self inst) \<and> succeeds (answer_id self inst)) \<longrightarrow>
            int (length (yielded self (create_batches self data B test)))
              = int (length (instances_of self data)) div B \<and>
            raised self (create_batches self data B test) = None"
    using 3 unfolding g_def insts_def n_def by blast
  have c4: "\<forall>d. instances d = take (length (instances_of self data)
                                    - length (instances_of self data) mod nat B)
                                 (instances_of self data) \<longrightarrow>
              py_list self (create_batches self (Some d) B test)
                = py_list self (create_batches self data B test)"
    using 4 unfolding g_def insts_def n_def by blast
  from c1 c2 c3 c4 show ?thesis by (intro conjI)
qed

text \<open>
  The amended statement at the batcher of the example, with its own three instances
  and batch size 2: both instances of the one full window are known, and one batch is
  yielded.
\<close>

theorem create_batches_shape_witness:
  "(0::int) < 2
   \<and> succeeds (question_id demo_batcher (instances_of demo_batcher None ! 0))
   \<and> succeeds (answer_id demo_batcher (instances_of demo_batcher None ! 0))
   \<and> succeeds (question_id demo_batcher (instances_of demo_batcher None ! 1))
   \<and> succeeds (answer_id demo_batcher (instances_of demo_batcher None ! 1))
   \<and> int (length (yielded demo_batcher (create_batches demo_batcher None 2 False)))
       = int (length (instances_of demo_batcher None)) div 2
   \<and> length (instances_of demo_batcher None) = 3
   \<and> raised demo_batcher (create_batches demo_batcher None 2 False) = None"
proof -
  have h1: "(0::int) < 2" by simp
  have ok: "succeeds (question_id demo_batcher (instances_of demo_batcher None ! 0))"
    "succeeds (answer_id demo_batcher (instances_of demo_batcher None ! 0))"
    "succeeds (question_id demo_batcher (instances_of demo_batcher None ! 1))"
    "succeeds (answer_id demo_batcher (instances_of demo_batcher None ! 1))"
    by (simp_all add: succeeds_def eval_defs)
  have len: "length (instances_of demo_batcher None) = 3"
    by (simp add: demo_instances)
  have tk: "take (length (instances_of demo_batcher None)
                   - length (instances_of demo_batcher None) mod nat 2)
                 (instances_of demo_batcher None)
              = [instances_of demo_batcher None ! 0, instances_of demo_batcher None ! 1]"
    by (simp add: demo_instances)
  have h2: "\<forall>inst\<in>set (take (length (instances_of demo_batcher None)
                                 - length (instances_of demo_batcher None) mod nat 2)
                               (instances_of demo_batcher None)).
              succeeds (question_id demo_batcher inst) \<and> succeeds (answer_id demo_batcher inst)"
    unfolding tk using ok by simp
  from create_batches_shape [OF h1, of demo_batcher None False] h2
  have c: "int (length (yielded demo_batcher (create_batches demo_batcher None 2 False)))
             = int (length (instances_of demo_batcher None)) div 2 \<and>
           raised demo_batcher (create_batches demo_batcher None 2 False) = None"
    by blast
  from h1 ok c len show ?thesis by blast
qed

text \<open>
  The claim as stated fails for one instance whose question is in no lexicon and
  batch size 1: \<open>L // B\<close> is 1, and no batch is yielded before KeyError is raised.
\<close>

theorem create_batches_shape_counterexample:
  "(0::int) < 1
   \<and> int (length (yielded demo_batcher (create_batches demo_batcher (Some unseen_data) 1 False)))
       \<noteq> int (length (instances_of demo_batcher (Some unseen_data))) div 1
   \<and> raised demo_batcher (create_batches demo_batcher (Some unseen_data) 1 False)
       = Some KeyError"
proof -
  have "length (instances_of demo_batcher (Some unseen_data)) = 1"
    by (simp add: instances_of_def unseen_data_def)
  then show ?thesis
    by (simp add: yielded_def raised_def unseen_run)
qed

subsection \<open>C2: the labels\<close>

text \<open>
  C2. For every batch yielded by \<^verbatim>\<open>create_batches\<close> and every element of it, the
  entry of \<open>target_values\<close> is the pair \<open>(1.0, 0.0)\<close>, and the first component of the
  entry of \<open>candidate_ids\<close> is the id, in the candidate lexicon, of the first answer
  text of the instance the element comes from: element \<open>i\<close> of batch \<open>j\<close> comes from
  instance \<open>j * B + i\<close>.
\<close>

theorem label_invariant:
  assumes "j < length (yielded self (create_batches self data B test))"
    and "i < length (feed_candidate_ids (yielded self (create_batches self data B test) ! j))"
  shows "feed_target_values (yielded self (create_batches self data B test) ! j) ! i = (1, 0)
       \<and> length (feed_target_values (yielded self (create_batches self data B test) ! j))
           = length (feed_candidate_ids (yielded self (create_batches self data B test) ! j))
       \<and> j * nat B + i < length (instances_of self data)
       \<and> (\<exists>a. answer_of (instances_of self data ! (j * nat B + i)) = Inr a \<and>
               getitem (candidate_lexicon self) a =
                 Inr (fst (feed_candidate_ids (yielded self (create_batches self data B test) ! j) ! i)))"
proof -
  have B: "0 < B" using assms(1) by (rule yielded_pos)
  note f = batch_facts [OF B assms(1)]
  have i: "i < nat B" using assms(2) f(3) by simp
  have 1: "feed_target_values (yielded self (create_batches self data B test) ! j) ! i = (1, 0)"
    using f(4) i by simp
  have 2: "length (feed_target_values (yielded self (create_batches self data B test) ! j))
           = length (feed_candidate_ids (yielded self (create_batches self data B test) ! j))"
    using f(3,4) by simp
  have "j * nat B + i < Suc j * nat B" using i by simp
  then have 3: "j * nat B + i < length (instances_of self data)"
    using f(1) by (rule less_le_trans)
  have "answer_id self (instances_of self data ! (j * nat B + i)) =
          Inr (fst (feed_candidate_ids (yielded self (create_batches self data B test) ! j) ! i))"
    using f(7) i by simp
  then have 4: "\<exists>a. answer_of (instances_of self data ! (j * nat B + i)) = Inr a \<and>
               getitem (candidate_lexicon self) a =
                 Inr (fst (feed_candidate_ids (yielded self (create_batches self data B test) ! j) ! i))"
    by (auto simp: answer_id_def split: sum.splits)
  from 1 2 3 4 show ?thesis by (intro conjI)
qed

text \<open>
  The second element of the batch of the example run.
\<close>

theorem label_invariant_witness:
  "0 < length (yielded demo_batcher (create_batches demo_batcher None 2 False))
   \<and> 1 < length (feed_candidate_ids
                   (yielded demo_batcher (create_batches demo_batcher None 2 False) ! 0))
   \<and> feed_target_values (yielded demo_batcher (create_batches demo_batcher None 2 False) ! 0) ! 1
       = (1, 0)
   \<and> answer_of (instances_of demo_batcher None ! (0 * nat 2 + 1)) = Inr ''Paris''
   \<and> getitem (candidate_lexicon demo_batcher) ''Paris''
       = Inr (fst (feed_candidate_ids
                     (yielded demo_batcher (create_batches demo_batcher None 2 False) ! 0) ! 1))"
proof -
  have h1: "0 < length (yielded demo_batcher (create_batches demo_batcher None 2 False))"
    by (simp add: demo_yielded)
  have h2: "1 < length (feed_candidate_ids
                   (yielded demo_batcher (create_batches demo_batcher None 2 False) ! 0))"
    by (simp add: demo_yielded)
  have a: "answer_of (instances_of demo_batcher None ! (0 * nat 2 + 1)) = Inr ''Paris''"
    by (simp add: demo_instances answer_of_def)
  from label_invariant [OF h1 h2]
  have c1: "feed_target_values
              (yielded demo_batcher (create_batches demo_batcher None 2 False) ! 0) ! 1 = (1, 0)"
    and c2: "\<exists>a. answer_of (instances_of demo_batcher None ! (0 * nat 2 + 1)) = Inr a \<and>
               getitem (candidate_lexicon demo_batcher) a =
                 Inr (fst (feed_candidate_ids
                   (yielded demo_batcher (create_batches demo_batcher None 2 False) ! 0) ! 1))"
    by blast+
  from c2 a have c3: "getitem (candidate_lexicon demo_batcher) ''Paris''
       = Inr (fst (feed_candidate_ids
                     (yielded demo_batcher (create_batches demo_batcher None 2 False) ! 0) ! 1))"
    by auto
  from h1 h2 c1 a c3 show ?thesis by (intro conjI)
qed

subsection \<open>C3: the end-to-end scenario\<close>

text \<open>
  C3. For the dataset with the two global candidates Paris and Berlin and three
  instances whose first answer text is Paris, whatever their three question texts, the
  batcher constructed from it yields, for batch size 2, exactly one batch of two
  elements and then ends: the third instance is dropped. The id of Paris in the
  candidate lexicon is 1, slot 0 of \<open>candidate_ids\<close> is that id in both elements, and
  both entries of \<open>target_values\<close> are \<open>(1.0, 0.0)\<close>.
\<close>

theorem paris_scenario:
  "\<exists>self x self' i1 i2.
     AtomicBatcher_init prng (paris_data q1 q2 q3) = Inr self
     \<and> getitem (candidate_lexicon self) ''Paris'' = Inr 1
     \<and> getitem (question_lexicon self) q1 = Inr i1
     \<and> getitem (question_lexicon self) q2 = Inr i2
     \<and> py_list self (create_batches self (Some (paris_data q1 q2 q3)) 2 test)
         = (([x], None), self')
     \<and> feed_question_ids x = [i1, i2]
     \<and> feed_candidate_ids x = [(1, int (prng 0 0) mod 2), (1, int (prng 0 1) mod 2)]
     \<and> feed_target_values x = [(1, 0), (1, 0)]"
proof -
  define rd where "rd = paris_data q1 q2 q3"
  define inst where
    "inst = (\<lambda>q. \<lparr>questions = [\<lparr>question = q, answers = [\<lparr>answer_text = ''Paris''\<rparr>]\<rparr>]\<rparr>)"
  have insts: "instances rd = [inst q1, inst q2, inst q3]"
    by (simp add: rd_def paris_data_def inst_def)
  have qo: "question_of (inst q) = Inr q" and ao: "answer_of (inst q) = Inr ''Paris''" for q
    by (simp_all add: inst_def question_of_def answer_of_def)
  have qs: "comprehension question_of (instances rd) = Inr [q1, q2, q3]"
    by (simp add: insts qo)
  obtain self where init: "AtomicBatcher_init prng rd = Inr self"
    using qs by (simp add: AtomicBatcher_init_def Let_def)
  note f = init_fields [OF init]
  have clex: "candidate_lexicon self = FrozenIdentifier [''Berlin'', ''Paris'']"
    using f(5)
    by (simp add: rd_def paris_data_def FrozenIdentifier_build_def sorted_list_of_set_sort_remdups)
  have "question_lexicon self = FrozenIdentifier_build (set [q1, q2, q3])"
    using f(6) qs by auto
  then have "set (symbols (question_lexicon self)) = set [q1, q2, q3]"
    by (simp only: symbols_build [OF finite_set])
  then have qlex: "set (symbols (question_lexicon self)) = {q1, q2, q3}"
    by simp
  have paris: "getitem (candidate_lexicon self) ''Paris'' = Inr 1"
    by (simp add: clex getitem_def)
  have known: "\<exists>v. getitem (question_lexicon self) q = Inr v" if "q \<in> {q1, q2, q3}" for q
    using that qlex getitem_Inl [of "question_lexicon self" q]
    by (cases "getitem (question_lexicon self) q") auto
  obtain i1 i2 where i: "getitem (question_lexicon self) q1 = Inr i1"
    "getitem (question_lexicon self) q2 = Inr i2"
    using known [of q1] known [of q2] by auto
  define g where "g = create_batches self (Some rd) 2 test"
  have io: "instances_of self (Some rd) = [inst q1, inst q2, inst q3]"
    by (simp add: instances_of_def insts)
  have eq: "py_list self g = py_list self (Suspended [inst q1, inst q2, inst q3] (int 2) (map int [0]))"
    using py_list_create_batches_pos [of 2 self "Some rd" test]
    by (simp add: g_def io)
  have ok: "\<forall>k\<in>set [0::nat]. \<forall>x\<in>set (take 2 (drop (k * 2) [inst q1, inst q2, inst q3])).
           (\<exists>v. question_id self x = Inr v) \<and> (\<exists>v. answer_id self x = Inr v)"
    using known by (simp add: question_id_def answer_id_def qo ao paris)
  have "\<exists>batches. py_list self (Suspended [inst q1, inst q2, inst q3] (int 2) (map int [0])) =
           ((batches, None), advance self (2 * length [0::nat])) \<and> length batches = length [0::nat]"
    by (rule py_list_Suspended_ok [OF _ _ ok]) simp_all
  then obtain x where run: "py_list self g = (([x], None), advance self 2)"
    unfolding eq by (auto simp: length_Suc_conv)
  have y: "yielded self g = [x]" by (simp add: yielded_def run)
  have j: "0 < length (yielded self (create_batches self (Some rd) 2 test))"
    using y by (simp add: g_def)
  note b = batch_facts [OF _ j, simplified, folded g_def, unfolded y io, simplified]
  have lq: "length (feed_question_ids x) = 2" using b(2) by simp
  have q0: "Inr (feed_question_ids x ! 0) = Inr i1" "Inr (feed_question_ids x ! 1) = Inr i2"
    using b(6) [of 0] b(6) [of 1] i by (simp_all add: question_id_def qo)
  have fq: "feed_question_ids x = [i1, i2]"
    using lq q0 by (cases "feed_question_ids x"; cases "tl (feed_question_ids x)") auto
  have lc: "length (feed_candidate_ids x) = 2" using b(3) by simp
  have c0: "fst (feed_candidate_ids x ! 0) = 1" "fst (feed_candidate_ids x ! 1) = 1"
    using b(7) [of 0] b(7) [of 1] by (simp_all add: answer_id_def ao paris)
  have n0: "snd (feed_candidate_ids x ! 0) = int (prng 0 0) mod 2"
    "snd (feed_candidate_ids x ! 1) = int (prng 0 1) mod 2"
    using b(8) [of 0] b(8) [of 1]
    by (simp_all add: f(1) Random_init_def clex len_def)
  have fc: "feed_candidate_ids x = [(1, int (prng 0 0) mod 2), (1, int (prng 0 1) mod 2)]"
    using lc c0 n0
    by (cases "feed_candidate_ids x"; cases "tl (feed_candidate_ids x)") (auto simp: prod_eq_iff)
  have ft: "feed_target_values x = [(1, 0), (1, 0)]"
    using b(4) by (simp add: numeral_2_eq_2)
  show ?thesis
    using init paris i run fq fc ft unfolding rd_def g_def by blast
qed

subsection \<open>C4: the range of the negatives\<close>

text \<open>
  C4. For every batcher and every batch yielded by \<^verbatim>\<open>create_batches\<close>, every
  sampled negative candidate id, the second component of an entry of
  \<open>candidate_ids\<close>, lies in \<open>[0, num_candidates)\<close>, where \<open>num_candidates\<close> is the
  size of the candidate lexicon. A batch is only ever yielded when that size is at
  least 1, so the statement needs no such assumption.
\<close>

theorem negative_in_range:
  assumes "j < length (yielded self (create_batches self data B test))"
    and "i < length (feed_candidate_ids (yielded self (create_batches self data B test) ! j))"
  shows "0 \<le> snd (feed_candidate_ids (yielded self (create_batches self data B test) ! j) ! i)
       \<and> snd (feed_candidate_ids (yielded self (create_batches self data B test) ! j) ! i)
           < len (candidate_lexicon self)"
proof -
  have B: "0 < B" using assms(1) by (rule yielded_pos)
  note f = batch_facts [OF B assms(1)]
  have i: "i < nat B" using assms(2) f(3) by simp
  have c: "0 < len (candidate_lexicon self)" using f(5) by simp
  have eq: "snd (feed_candidate_ids (yielded self (create_batches self data B test) ! j) ! i) =
             int (outputs (random_source self) (consumed (random_source self) + j * nat B + i))
               mod len (candidate_lexicon self)"
    using f(8) i by simp
  show ?thesis
    unfolding eq using c by (simp add: pos_mod_bound)
qed

text \<open>
  The second element of the batch of the example run, where the lexicon has size 2.
\<close>

theorem negative_in_range_witness:
  "0 < length (yielded demo_batcher (create_batches demo_batcher None 2 False))
   \<and> 1 < length (feed_candidate_ids
                   (yielded demo_batcher (create_batches demo_batcher None 2 False) ! 0))
   \<and> 0 \<le> snd (feed_candidate_ids
                   (yielded demo_batcher (create_batches demo_batcher None 2 False) ! 0) ! 1)
   \<and> snd (feed_candidate_ids
             (yielded demo_batcher (create_batches demo_batcher None 2 False) ! 0) ! 1)
       < len (candidate_lexicon demo_batcher)
   \<and> len (candidate_lexicon demo_batcher) = 2"
proof -
  have h1: "0 < length (yielded demo_batcher (create_batches demo_batcher None 2 False))"
    by (simp add: demo_yielded)
  have h2: "1 < length (feed_candidate_ids
                   (yielded demo_batcher (create_batches demo_batcher None 2 False) ! 0))"
    by (simp add: demo_yielded)
  have l: "len (candidate_lexicon demo_batcher) = 2"
    by (simp add: len_def demo_batcher_def)
  from negative_in_range [OF h1 h2] h1 h2 l show ?thesis by (intro conjI) blast+
qed

subsection \<open>C5: reproducible negatives\<close>

text \<open>
  C5. Two batchers constructed from equal reference data yield, for equal data and
  batch size, identical batch sequences and end in the same state, because the random
  source of a constructed batcher is the generator seeded with the constant 0,
  whatever the reference data. The negative of element \<open>i\<close> of batch \<open>j\<close> is output
  number \<open>j * B + i\<close> of that generator reduced to the range of the candidate ids.
\<close>

theorem negative_sampling_reproducible:
  assumes "AtomicBatcher_init prng ref1 = Inr b1"
    and "AtomicBatcher_init prng ref2 = Inr b2"
    and "ref1 = ref2"
  shows "py_list b1 (create_batches b1 data B test) = py_list b2 (create_batches b2 data B test)
       \<and> random_source b1 = Random_init prng 0
       \<and> random_source b2 = Random_init prng 0
       \<and> (\<forall>j<length (yielded b1 (create_batches b1 data B test)). \<forall>i<nat B.
            snd (feed_candidate_ids (yielded b1 (create_batches b1 data B test) ! j) ! i)
              = int (prng 0 (j * nat B + i)) mod num_candidates b1)"
proof -
  have same: "b1 = b2" using assms by simp
  have r1: "random_source b1 = Random_init prng 0"
    and r2: "random_source b2 = Random_init prng 0"
    using init_fields(1) assms(1,2) by blast+
  have nc: "num_candidates b1 = len (candidate_lexicon b1)"
    using init_fields(2) [OF assms(1)] .
  have neg: "snd (feed_candidate_ids (yielded b1 (create_batches b1 data B test) ! j) ! i)
              = int (prng 0 (j * nat B + i)) mod num_candidates b1"
    if j: "j < length (yielded b1 (create_batches b1 data B test))" and i: "i < nat B" for j i
  proof -
    have B: "0 < B" using j by (rule yielded_pos)
    show ?thesis
      using batch_facts(8) [OF B j i] by (simp add: r1 nc Random_init_def)
  qed
  show ?thesis using same r1 r2 neg by simp
qed

text \<open>
  The batcher of the example is the batcher constructed from the example data; the
  second negative of its batch is output 1 of the generator.
\<close>

theorem negative_sampling_reproducible_witness:
  "AtomicBatcher_init (\<lambda>seed k. k) (paris_data ''q1'' ''q2'' ''q3'') = Inr demo_batcher
   \<and> py_list demo_batcher (create_batches demo_batcher None 2 False)
       = py_list demo_batcher (create_batches demo_batcher None 2 False)
   \<and> random_source demo_batcher = Random_init (\<lambda>seed k. k) 0
   \<and> 0 < length (yielded demo_batcher (create_batches demo_batcher None 2 False))
   \<and> 1 < nat 2
   \<and> snd (feed_candidate_ids
             (yielded demo_batcher (create_batches demo_batcher None 2 False) ! 0) ! 1)
       = int (0 * nat 2 + 1) mod num_candidates demo_batcher"
proof -
  have h1: "0 < length (yielded demo_batcher (create_batches demo_batcher None 2 False))"
    by (simp add: demo_yielded)
  have h2: "1 < nat 2" by simp
  note t = negative_sampling_reproducible [OF demo_init demo_init refl, of None 2 False]
  from t have c1: "py_list demo_batcher (create_batches demo_batcher None 2 False)
       = py_list demo_batcher (create_batches demo_batcher None 2 False)"
    and c2: "random_source demo_batcher = Random_init (\<lambda>seed k. k) 0"
    by blast+
  from t h1 h2 have c3: "snd (feed_candidate_ids
             (yielded demo_batcher (create_batches demo_batcher None 2 False) ! 0) ! 1)
       = int (0 * nat 2 + 1) mod num_candidates demo_batcher"
    by blast
  from demo_init c1 c2 h1 h2 c3 show ?thesis by (intro conjI)
qed

subsection \<open>C6: the test flag\<close>

text \<open>
  C6. For every data, batch size and batcher, \<^verbatim>\<open>create_batches\<close> with
  \<^verbatim>\<open>test=True\<close> behaves as with \<^verbatim>\<open>test=False\<close>: the complete iteration, the
  first \<^verbatim>\<open>next\<close> and every prefix of the iteration are the same, with the same
  batcher and the same generator afterwards. In either mode exactly one negative is
  sampled per instance: batch \<open>j\<close> is made from the \<open>B\<close> instances of window \<open>j\<close> and
  has \<open>B\<close> candidate pairs; pair \<open>i\<close> holds the answer id of instance \<open>j * B + i\<close>
  and one negative, which is the output of the random source that instance alone
  consumes, number \<open>j * B + i\<close> after the start; and the random source has consumed
  as many outputs as there are pairs in the batches yielded.
\<close>

theorem test_flag_ignored:
  "py_list self (create_batches self data B True) = py_list self (create_batches self data B False)
   \<and> gen_next self (create_batches self data B True)
       = gen_next self (create_batches self data B False)
   \<and> islice (Suc n) self (create_batches self data B True)
       = islice (Suc n) self (create_batches self data B False)
   \<and> consumed (random_source (batcher_after self (create_batches self data B test)))
       = consumed (random_source self)
         + sum_list (map (\<lambda>x. length (feed_candidate_ids x))
                      (yielded self (create_batches self data B test)))
   \<and> (\<forall>j<length (yielded self (create_batches self data B test)).
         0 < B
       \<and> length (py_slice (instances_of self data) (int j * B) ((int j + 1) * B)) = nat B
       \<and> length (feed_candidate_ids (yielded self (create_batches self data B test) ! j)) = nat B
       \<and> (\<forall>i<nat B.
             j * nat B + i < length (instances_of self data)
           \<and> py_slice (instances_of self data) (int j * B) ((int j + 1) * B) ! i
               = instances_of self data ! (j * nat B + i)
           \<and> answer_id self (instances_of self data ! (j * nat B + i))
               = Inr (fst (feed_candidate_ids
                            (yielded self (create_batches self data B test) ! j) ! i))
           \<and> snd (feed_candidate_ids (yielded self (create_batches self data B test) ! j) ! i)
               = int (outputs (random_source self)
                        (consumed (random_source self) + (j * nat B + i)))
                   mod len (candidate_lexicon self)))"
proof -
  have 1: "gen_next self (create_batches self data B True)
             = gen_next self (create_batches self data B False)"
    by (simp add: create_batches_def)
  have 2: "py_list self (create_batches self data B True)
             = py_list self (create_batches self data B False)"
    by (simp add: create_batches_def py_list_Created)
  have 3: "islice (Suc n) self (create_batches self data B True)
             = islice (Suc n) self (create_batches self data B False)"
    using 1 by simp
  have 5: "0 < B
       \<and> length (py_slice (instances_of self data) (int j * B) ((int j + 1) * B)) = nat B
       \<and> length (feed_candidate_ids (yielded self (create_batches self data B test) ! j)) = nat B
       \<and> (\<forall>i<nat B.
             j * nat B + i < length (instances_of self data)
           \<and> py_slice (instances_of self data) (int j * B) ((int j + 1) * B) ! i
               = instances_of self data ! (j * nat B + i)
           \<and> answer_id self (instances_of self data ! (j * nat B + i))
               = Inr (fst (feed_candidate_ids
                            (yielded self (create_batches self data B test) ! j) ! i))
           \<and> snd (feed_candidate_ids (yielded self (create_batches self data B test) ! j) ! i)
               = int (outputs (random_source self)
                        (consumed (random_source self) + (j * nat B + i)))
                   mod len (candidate_lexicon self))"
    if j: "j < length (yielded self (create_batches self data B test))" for j
  proof -
    have B: "0 < B" using j by (rule yielded_pos)
    then have Bn: "B = int (nat B)" by simp
    note f = batch_facts [OF B j]
    have sl: "py_slice (instances_of self data) (int j * B) ((int j + 1) * B)
                = take (nat B) (drop (j * nat B) (instances_of self data))"
      using py_slice_window [OF f(1)] Bn by simp
    have wl: "length (py_slice (instances_of self data) (int j * B) ((int j + 1) * B)) = nat B"
      unfolding sl using f(1) by simp
    have el: "j * nat B + i < length (instances_of self data)
           \<and> py_slice (instances_of self data) (int j * B) ((int j + 1) * B) ! i
               = instances_of self data ! (j * nat B + i)
           \<and> answer_id self (instances_of self data ! (j * nat B + i))
               = Inr (fst (feed_candidate_ids
                            (yielded self (create_batches self data B test) ! j) ! i))
           \<and> snd (feed_candidate_ids (yielded self (create_batches self data B test) ! j) ! i)
               = int (outputs (random_source self)
                        (consumed (random_source self) + (j * nat B + i)))
                   mod len (candidate_lexicon self)"
      if i: "i < nat B" for i
    proof -
      have "j * nat B + i < Suc j * nat B" using i by simp
      then have a: "j * nat B + i < length (instances_of self data)"
        using f(1) by (rule less_le_trans)
      have b: "py_slice (instances_of self data) (int j * B) ((int j + 1) * B) ! i
               = instances_of self data ! (j * nat B + i)"
        unfolding sl using i f(1) by simp
      show ?thesis using a b f(7) [OF i] f(8) [OF i] by (simp add: add.assoc)
    qed
    from B wl f(3) el show ?thesis by blast
  qed
  from 2 1 3 consumed_per_element 5 show ?thesis by blast
qed

text \<open>
  The second instance of the batch of the example run, with the flag set.
\<close>

theorem test_flag_ignored_witness:
  "0 < length (yielded demo_batcher (create_batches demo_batcher None 2 True))
   \<and> 1 < nat 2
   \<and> yielded demo_batcher (create_batches demo_batcher None 2 True)
       = yielded demo_batcher (create_batches demo_batcher None 2 False)
   \<and> length (feed_candidate_ids
               (yielded demo_batcher (create_batches demo_batcher None 2 True) ! 0)) = nat 2
   \<and> snd (feed_candidate_ids
             (yielded demo_batcher (create_batches demo_batcher None 2 True) ! 0) ! 1)
       = int (outputs (random_source demo_batcher)
                (consumed (random_source demo_batcher) + (0 * nat 2 + 1)))
           mod len (candidate_lexicon demo_batcher)"
proof -
  note t = test_flag_ignored [of demo_batcher None 2 0 True]
  from t have same: "py_list demo_batcher (create_batches demo_batcher None 2 True)
                       = py_list demo_batcher (create_batches demo_batcher None 2 False)"
    by blast
  then have y: "yielded demo_batcher (create_batches demo_batcher None 2 True)
       = yielded demo_batcher (create_batches demo_batcher None 2 False)"
    by (simp add: yielded_def)
  have h1: "0 < length (yielded demo_batcher (create_batches demo_batcher None 2 True))"
    unfolding y by (simp add: demo_yielded)
  have h2: "1 < nat 2" by simp
  from t h1 have c1: "length (feed_candidate_ids
               (yielded demo_batcher (create_batches demo_batcher None 2 True) ! 0)) = nat 2"
    by blast
  from t h1 h2 have c2: "snd (feed_candidate_ids
             (yielded demo_batcher (create_batches demo_batcher None 2 True) ! 0) ! 1)
       = int (outputs (random_source demo_batcher)
                (consumed (random_source demo_batcher) + (0 * nat 2 + 1)))
           mod len (candidate_lexicon demo_batcher)"
    by blast
  from h1 h2 y c1 c2 show ?thesis by (intro conjI)
qed

subsection \<open>C7: unknown symbols\<close>

text \<open>
  C7. Let the data have at least one full window of \<open>batch_size\<close> instances, each
  instance of the first window with a first question and a first answer, as the data
  model of an instance requires. If in that window some question text is absent from
  the question lexicon, or some first answer text is absent from the candidate
  lexicon, then the first \<^verbatim>\<open>next\<close> raises KeyError: no batch is yielded, no id is
  substituted, and the batcher is unchanged.
\<close>

theorem unknown_symbol_raises:
  assumes "0 < B" and "B \<le> int (length (instances_of self data))"
    and "\<forall>inst\<in>set (take (nat B) (instances_of self data)). succeeds (answer_of inst)"
    and "\<exists>inst\<in>set (take (nat B) (instances_of self data)).
           (\<exists>q. question_of inst = Inr q \<and> q \<notin> set (symbols (question_lexicon self))) \<or>
           (\<exists>a. answer_of inst = Inr a \<and> a \<notin> set (symbols (candidate_lexicon self)))"
  shows "gen_next self (create_batches self data B test) = (Raise KeyError, self, Finished)
       \<and> py_list self (create_batches self data B test) = (([], Some KeyError), self)"
proof -
  define window where "window = take (nat B) (instances_of self data)"
  have n: "0 < nat B" "nat B \<le> length (instances_of self data)" "int (nat B) = B"
    using assms(1,2) by simp_all
  note fn = first_next [OF n(1,2), unfolded n(3)]
  have w: "py_slice (instances_of self data) 0 B = window"
    using fn(2) by (simp add: window_def)
  have wf: "\<forall>inst\<in>set window. succeeds (answer_of inst)"
    using assms(3) by (simp add: window_def)
  obtain bad where bad: "bad \<in> set window"
    "question_id self bad = Inl KeyError \<or> answer_id self bad = Inl KeyError"
    using assms(4)
    by (auto simp: window_def question_id_def answer_id_def getitem_Inl split: sum.splits)
  have mb: "make_batch self (instances_of self data) B (int 0) = (Inl KeyError, self)"
  proof (cases "comprehension (question_id self) window")
    case (Inl e)
    then obtain inst where "inst \<in> set window" "question_id self inst = Inl e"
      using comprehension_Inl by blast
    then have "e = KeyError" using wf question_id_error by blast
    then show ?thesis
      using Inl by (simp add: make_batch_def w)
  next
    case (Inr qids)
    then have "\<forall>x\<in>set window. \<exists>y. question_id self x = Inr y"
      using comprehension_Inr_iff [of "question_id self" window] by blast
    then have "answer_id self bad = Inl KeyError" using bad by auto
    then have "\<not> (\<exists>ys. comprehension (answer_id self) window = Inr ys)"
      using bad(1) comprehension_Inr_iff [of "answer_id self" window] by auto
    then obtain e where e: "comprehension (answer_id self) window = Inl e"
      by (cases "comprehension (answer_id self) window") auto
    then obtain inst where "inst \<in> set window" "answer_id self inst = Inl e"
      using comprehension_Inl by blast
    then have "e = KeyError" using wf answer_id_error by blast
    then show ?thesis
      using Inr e by (simp add: make_batch_def w)
  qed
  have 1: "gen_next self (create_batches self data B test) = (Raise KeyError, self, Finished)"
    using fn(1) mb by simp
  from 1 py_list_Raise [OF 1] show ?thesis by (intro conjI)
qed

text \<open>
  The batcher of the example on a dataset whose only question is unknown.
\<close>

theorem unknown_symbol_raises_witness:
  "(0::int) < 1
   \<and> 1 \<le> int (length (instances_of demo_batcher (Some unseen_data)))
   \<and> take (nat 1) (instances_of demo_batcher (Some unseen_data))
       = [instances_of demo_batcher (Some unseen_data) ! 0]
   \<and> succeeds (answer_of (instances_of demo_batcher (Some unseen_data) ! 0))
   \<and> question_of (instances_of demo_batcher (Some unseen_data) ! 0) = Inr ''q4''
   \<and> ''q4'' \<notin> set (symbols (question_lexicon demo_batcher))
   \<and> gen_next demo_batcher (create_batches demo_batcher (Some unseen_data) 1 False)
       = (Raise KeyError, demo_batcher, Finished)"
proof -
  have i: "instances_of demo_batcher (Some unseen_data) =
             [\<lparr>questions = [\<lparr>question = ''q4'', answers = [\<lparr>answer_text = ''Paris''\<rparr>]\<rparr>]\<rparr>]"
    by (simp add: instances_of_def unseen_data_def)
  have h1: "(0::int) < 1" by simp
  have h2: "1 \<le> int (length (instances_of demo_batcher (Some unseen_data)))"
    by (simp add: i)
  have tk: "take (nat 1) (instances_of demo_batcher (Some unseen_data))
       = [instances_of demo_batcher (Some unseen_data) ! 0]"
    by (simp add: i)
  have s: "succeeds (answer_of (instances_of demo_batcher (Some unseen_data) ! 0))"
    by (simp add: i succeeds_def answer_of_def)
  have q: "question_of (instances_of demo_batcher (Some unseen_data) ! 0) = Inr ''q4''"
    by (simp add: i question_of_def)
  have n: "''q4'' \<notin> set (symbols (question_lexicon demo_batcher))"
    by (simp add: demo_batcher_def)
  have h3: "\<forall>inst\<in>set (take (nat 1) (instances_of demo_batcher (Some unseen_data))).
             succeeds (answer_of inst)"
    unfolding tk using s by simp
  have h4: "\<exists>inst\<in>set (take (nat 1) (instances_of demo_batcher (Some unseen_data))).
           (\<exists>q. question_of inst = Inr q \<and> q \<notin> set (symbols (question_lexicon demo_batcher))) \<or>
           (\<exists>a. answer_of inst = Inr a \<and> a \<notin> set (symbols (candidate_lexicon demo_batcher)))"
    unfolding tk using q n by simp
  from unknown_symbol_raises [OF h1 h2 h3 h4, of False]
  have c: "gen_next demo_batcher (create_batches demo_batcher (Some unseen_data) 1 False)
       = (Raise KeyError, demo_batcher, Finished)"
    by blast
  from h1 h2 tk s q n c show ?thesis by (intro conjI)
qed

subsection \<open>C8: the dot-product scorer\<close>

text \<open>
  C8. For question encodings \<open>Q\<close> of shape \<open>[batch_size, enc_dim]\<close> and candidate
  encodings \<open>C\<close> of shape \<open>[batch_size, num_candidates, enc_dim]\<close>, the scorer returns
  \<open>S\<close> of shape \<open>[batch_size, num_candidates]\<close> with \<open>S[b][c]\<close> the sum over \<open>d\<close> of
  \<open>Q[b][d] * C[b][c][d]\<close>: the question vector is used for every candidate, and
  nothing is normalised.
\<close>

theorem dot_product_scorer:
  assumes "length Q = B" and "\<forall>q\<in>set Q. length q = D"
    and "length C = B" and "\<forall>c\<in>set C. length c = N \<and> (\<forall>v\<in>set c. length v = D)"
  shows "\<exists>S. create_dot_product_scorer Q C = Inr S \<and> length S = B \<and>
             (\<forall>b<B. length (S ! b) = N \<and>
                (\<forall>c<N. S ! b ! c = (\<Sum>d<D. Q ! b ! d * C ! b ! c ! d)))"
proof -
  define S where
    "S = map (\<lambda>(q, c). map (\<lambda>v. sum_list (map (\<lambda>(a, b). a * b) (zip q v))) c) (zip Q C)"
  have row: "broadcast (broadcast (\<lambda>a b. Inr (a * b))) x c
               = Inr (map (\<lambda>v. map (\<lambda>(a, b). a * b) (zip (hd x) v)) c)"
    if "(x, c) \<in> set (zip (expand_dims_1 Q) C)" for x c
  proof -
    have "x \<in> set (expand_dims_1 Q)" using that by (rule set_zip_leftD)
    then obtain q where x: "x = [q]" "q \<in> set Q"
      by (auto simp: expand_dims_1_def)
    have "c \<in> set C" using that by (rule set_zip_rightD)
    then have "\<forall>v\<in>set c. length v = length q" using assms(2,4) x(2) by simp
    then show ?thesis unfolding x(1) by (simp add: broadcast_question)
  qed
  have "tf_multiply (expand_dims_1 Q) C
          = Inr (map (\<lambda>(x, c). map (\<lambda>v. map (\<lambda>(a, b). a * b) (zip (hd x) v)) c)
                     (zip (expand_dims_1 Q) C))"
    unfolding tf_multiply_def broadcast_def [of _ "expand_dims_1 Q" C]
    using assms(1,3) row
    by (simp add: expand_dims_1_def comprehension_total
          [where g = "\<lambda>(x, c). map (\<lambda>v. map (\<lambda>(a, b). a * b) (zip (hd x) v)) c"] split_def)
  also have "map (\<lambda>(x, c). map (\<lambda>v. map (\<lambda>(a, b). a * b) (zip (hd x) v)) c)
                     (zip (expand_dims_1 Q) C)
             = map (\<lambda>(q, c). map (\<lambda>v. map (\<lambda>(a, b). a * b) (zip q v)) c) (zip Q C)"
    by (simp add: expand_dims_1_def zip_map1 split_def)
  finally have scorer: "create_dot_product_scorer Q C = Inr S"
    by (simp add: create_dot_product_scorer_def reduce_sum_2_def S_def split_def comp_def)
  have len: "length S = B" using assms(1,3) by (simp add: S_def)
  have entry: "length (S ! b) = N \<and> (\<forall>c<N. S ! b ! c = (\<Sum>d<D. Q ! b ! d * C ! b ! c ! d))"
    if b: "b < B" for b
  proof -
    have Sb: "S ! b = map (\<lambda>v. sum_list (map (\<lambda>(a, b). a * b) (zip (Q ! b) v))) (C ! b)"
      using b assms(1,3) by (simp add: S_def)
    have Cb: "length (C ! b) = N" "\<forall>v\<in>set (C ! b). length v = D"
      using b assms(3,4) by (metis nth_mem)+
    have Qb: "length (Q ! b) = D" using b assms(1,2) by (metis nth_mem)
    have "S ! b ! c = (\<Sum>d<D. Q ! b ! d * C ! b ! c ! d)" if c: "c < N" for c
    proof -
      have "length (C ! b ! c) = D" using Cb c by (metis nth_mem)
      then show ?thesis
        using c Cb(1) Qb by (simp add: Sb sum_list_products)
    qed
    then show ?thesis using Cb(1) by (simp add: Sb)
  qed
  show ?thesis using scorer len entry by blast
qed

text \<open>
  Two questions and two candidates each, in dimension 2.
\<close>

theorem dot_product_scorer_witness:
  "map length [[1, 2], [0, 1 :: real]] = [2, 2]
   \<and> map (map length) [[[3, 4], [5, 6]], [[1, 1], [2, 2 :: real]]] = [[2, 2], [2, 2]]
   \<and> create_dot_product_scorer [[1, 2], [0, 1]] [[[3, 4], [5, 6]], [[1, 1], [2, 2]]]
       = Inr [[11, 17], [1, 2]]
   \<and> (\<exists>S. create_dot_product_scorer [[1, 2], [0, 1]] [[[3, 4], [5, 6]], [[1, 1], [2, 2]]] = Inr S
          \<and> length S = 2 \<and> length (S ! 1) = 2
          \<and> S ! 1 ! 0 = (\<Sum>d<2. [[1, 2], [0, 1]] ! 1 ! d
                                * [[[3, 4], [5, 6]], [[1, 1], [2, 2]]] ! 1 ! 0 ! d))"
proof -
  have h1: "length [[1, 2], [0, 1 :: real]] = 2" by simp
  have h2: "\<forall>q\<in>set [[1, 2], [0, 1 :: real]]. length q = 2" by simp
  have h3: "length [[[3, 4], [5, 6]], [[1, 1], [2, 2 :: real]]] = 2" by simp
  have h4: "\<forall>c\<in>set [[[3, 4], [5, 6]], [[1, 1], [2, 2 :: real]]].
              length c = 2 \<and> (\<forall>v\<in>set c. length v = 2)"
    by simp
  have e: "create_dot_product_scorer [[1, 2], [0, 1]] [[[3, 4], [5, 6]], [[1, 1], [2, 2]]]
             = Inr [[11, 17], [1, 2]]"
    by (simp add: create_dot_product_scorer_def tf_multiply_def broadcast_def expand_dims_1_def
          reduce_sum_2_def)
  from dot_product_scorer [OF h1 h2 h3 h4]
  obtain S where S:
    "create_dot_product_scorer [[1, 2], [0, 1]] [[[3, 4], [5, 6]], [[1, 1], [2, 2]]] = Inr S"
    "length S = 2"
    "\<forall>b<2. length (S ! b) = 2 \<and>
       (\<forall>c<2. S ! b ! c = (\<Sum>d<2. [[1, 2], [0, 1]] ! b ! d
                                 * [[[3, 4], [5, 6]], [[1, 1], [2, 2]]] ! b ! c ! d))"
    by blast
  have b: "(1::nat) < 2" and c: "(0::nat) < 2" by simp_all
  from S(3) b have row: "length (S ! 1) = 2"
    and "\<forall>c<2. S ! 1 ! c = (\<Sum>d<2. [[1, 2], [0, 1]] ! 1 ! d
                                 * [[[3, 4], [5, 6]], [[1, 1], [2, 2]]] ! 1 ! c ! d)"
    by blast+
  with c have entry: "S ! 1 ! 0 = (\<Sum>d<2. [[1, 2], [0, 1]] ! 1 ! d
                                 * [[[3, 4], [5, 6]], [[1, 1], [2, 2]]] ! 1 ! 0 ! d)"
    by blast
  have hyps: "map length [[1, 2], [0, 1 :: real]] = [2, 2]"
    "map (map length) [[[3, 4], [5, 6]], [[1, 1], [2, 2 :: real]]] = [[2, 2], [2, 2]]"
    by simp_all
  from S(1,2) row entry
  have ex: "\<exists>S. create_dot_product_scorer [[1, 2], [0, 1]] [[[3, 4], [5, 6]], [[1, 1], [2, 2]]] = Inr S
          \<and> length S = 2 \<and> length (S ! 1) = 2
          \<and> S ! 1 ! 0 = (\<Sum>d<2. [[1, 2], [0, 1]] ! 1 ! d
                                * [[[3, 4], [5, 6]], [[1, 1], [2, 2]]] ! 1 ! 0 ! d)"
    by blast
  from hyps e ex show ?thesis by (intro conjI)
qed

subsection \<open>C9: the empty candidate lexicon\<close>




subsection \<open>C10: the frame of create\_batches\<close>

text \<open>
  C10. Generating any number of batches leaves the batcher unchanged except for its
  private random source. For every \<open>n\<close>, after \<^verbatim>\<open>islice(gen, n)\<close> on the generator
  that \<^verbatim>\<open>create_batches\<close> returns, and also after its complete iteration, the
  batcher equals the batcher before with only \<open>random_source\<close> replaced: the
  reference data, both lexicons, \<open>num_candidates\<close> and \<open>num_questions\<close> are the
  same. The input data is not mutated: the instance list the generator goes on reading
  is the instance list of the data passed.
\<close>

theorem create_batches_frame:
  "fst (snd (islice n self (create_batches self data B test)))
     = self\<lparr>random_source :=
              random_source (fst (snd (islice n self (create_batches self data B test))))\<rparr>
   \<and> reference_data (fst (snd (islice n self (create_batches self data B test))))
       = reference_data self
   \<and> question_lexicon (fst (snd (islice n self (create_batches self data B test))))
       = question_lexicon self
   \<and> candidate_lexicon (fst (snd (islice n self (create_batches self data B test))))
       = candidate_lexicon self
   \<and> num_candidates (fst (snd (islice n self (create_batches self data B test))))
       = num_candidates self
   \<and> num_questions (fst (snd (islice n self (create_batches self data B test))))
       = num_questions self
   \<and> held_instances (fst (snd (islice n self (create_batches self data B test))))
                     (snd (snd (islice n self (create_batches self data B test))))
       \<in> {None, Some (instances_of self data)}
   \<and> batcher_after self (create_batches self data B test)
       = self\<lparr>random_source :=
                random_source (batcher_after self (create_batches self data B test))\<rparr>"
proof -
  obtain res s' g' where run: "islice n self (create_batches self data B test) = (res, s', g')"
    by (metis prod.exhaust)
  have h: "held_instances self (create_batches self data B test) = Some (instances_of self data)"
    by (simp add: create_batches_def)
  from islice_frame [OF run] h
  have 1: "s' = self\<lparr>random_source := random_source s'\<rparr>"
    and 2: "held_instances s' g' \<in> {None, Some (instances_of self data)}"
    by (auto simp: frame_def)
  have fields: "reference_data s' = reference_data self"
    "question_lexicon s' = question_lexicon self"
    "candidate_lexicon s' = candidate_lexicon self"
    "num_candidates s' = num_candidates self"
    "num_questions s' = num_questions self"
    by (subst 1, simp)+
  have 3: "batcher_after self (create_batches self data B test)
       = self\<lparr>random_source :=
                random_source (batcher_after self (create_batches self data B test))\<rparr>"
    using py_list_frame [of self "create_batches self data B test"]
    by (simp add: batcher_after_def frame_def)
  show ?thesis
    unfolding run fst_conv snd_conv using 1 2 3 fields by blast
qed

end
